theory Spec2Isabelle
  imports Main "HOL-Library.Sublist"
begin

section \<open>JavaScript values, HTTP responses and errors\<close>

text \<open>
  The connectivity layer of the front end exists in two variants of the same module: the
  file \<^verbatim>\<open>part_000\<close>, which normalises the configured URL and classifies transport
  errors (definitions with suffix \<open>_p0\<close>), and the file \<^verbatim>\<open>part_001\<close>, which
  auto-detects the backend and wakes it up (suffix \<open>_p1\<close>). Both are embedded here, each
  function under its own name.

  Strings are lists of characters and \<open>null\<close>/\<open>undefined\<close> is \<open>None\<close>. A promise is the
  value it settles with: \<open>Inr\<close> when fulfilled, \<open>Inl\<close> when rejected; \<open>await\<close> inside
  \<open>try\<close> hands an \<open>Inl\<close> to the \<open>catch\<close> block, outside it the \<open>Inl\<close> leaves the function.
  Each function below is one call from its start to its settlement, with no code of another
  call running in between. Calls that overlap are the subject of the last section of the
  definitions, where the functions concerned are split at their \<open>await\<close>s.
\<close>

datatype json = JNull | JBool bool | JNum int | JStr string
  | JArr "json list" | JObj "(string \<times> json) list"

text \<open>JavaScript truthiness of a value, and of a string that may be \<open>null\<close>.\<close>

fun truthy :: "json \<Rightarrow> bool" where
  "truthy JNull = False"
| "truthy (JBool b) = b"
| "truthy (JNum n) = (n \<noteq> 0)"
| "truthy (JStr s) = (s \<noteq> [])"
| "truthy (JArr xs) = True"
| "truthy (JObj kvs) = True"

fun truthy_str :: "string option \<Rightarrow> bool" where
  "truthy_str None = False"
| "truthy_str (Some s) = (s \<noteq> [])"

text \<open>Property access \<open>v.k\<close> on a value that is not \<open>null\<close>: only objects carry the keys
  read here (\<open>status\<close>, \<open>message\<close>); \<open>None\<close> is \<open>undefined\<close>.\<close>

fun get_prop :: "json \<Rightarrow> string \<Rightarrow> json option" where
  "get_prop (JObj kvs) k = map_of kvs k"
| "get_prop v k = None"

record http_response =
  status :: nat
  data :: json

record axios_error =
  code :: "string option"
  message :: string
  response :: "http_response option"
  userMessage :: "json option"
  isRetryError :: bool

record request_config =
  http_method :: string
  baseURL :: "string option"
  url :: string
  payload :: json
  headers :: "(string \<times> string) list"
  timeout :: nat
  responseType :: "string option"
  retry :: bool

text \<open>What can be observed of a run: requests handed to the transport, timed suspensions
  (\<open>setTimeout\<close>, in milliseconds), console output and client construction.\<close>

datatype event =
    Request request_config
  | Sleep int
  | ConsoleLog "string list"
  | ConsoleWarn "string list"
  | Create "string option"

text \<open>The backend and the transport are the environment: given what has happened so far and
  the request, the transport either fails (an error code and a message, no response) or
  delivers an HTTP response.\<close>

datatype outcome = Failed string string | Replied http_response

type_synonym network = "event list \<Rightarrow> request_config \<Rightarrow> outcome"

subsection \<open>The HTTP client library\<close>

fun show_nat :: "nat \<Rightarrow> string" where
  "show_nat n = (if n < 10 then [char_of (48 + n)] else show_nat (n div 10) @ [char_of (48 + n mod 10)])"

declare show_nat.simps [simp del]

text \<open>The library settles a delivered response with the request's \<open>validateStatus\<close>: an
  accepted status resolves with the response, any other rejects with an error that carries
  the response. A transport failure rejects with the transport's code and no response.\<close>

definition status_error :: "http_response \<Rightarrow> axios_error" where
  "status_error r =
     \<lparr>code = (if status r div 100 = 4 then Some ''ERR_BAD_REQUEST''
              else if status r div 100 = 5 then Some ''ERR_BAD_RESPONSE'' else None),
      message = ''Request failed with status code '' @ show_nat (status r),
      response = Some r, userMessage = None, isRetryError = False\<rparr>"

definition transport_error :: "string \<Rightarrow> string \<Rightarrow> axios_error" where
  "transport_error c m =
     \<lparr>code = Some c, message = m, response = None, userMessage = None, isRetryError = False\<rparr>"

definition dispatch ::
  "network \<Rightarrow> (nat \<Rightarrow> bool) \<Rightarrow> request_config \<Rightarrow> event list
     \<Rightarrow> event list \<times> (axios_error + http_response)" where
  "dispatch net validateStatus config tr =
     (case net tr config of
        Failed c m \<Rightarrow> (tr @ [Request config], Inl (transport_error c m))
      | Replied r \<Rightarrow>
          (tr @ [Request config],
           if status r = 0 \<or> validateStatus (status r) then Inr r else Inl (status_error r)))"

text \<open>\<open>axios.get(url, {timeout, validateStatus, headers})\<close> on the global client.\<close>

definition axios_get ::
  "network \<Rightarrow> string \<Rightarrow> nat \<Rightarrow> (nat \<Rightarrow> bool) \<Rightarrow> (string \<times> string) list \<Rightarrow> event list
     \<Rightarrow> event list \<times> (axios_error + http_response)" where
  "axios_get net u t validateStatus hs tr =
     dispatch net validateStatus
       \<lparr>http_method = ''get'', baseURL = None, url = u, payload = JNull, headers = hs,
        timeout = t, responseType = None, retry = False\<rparr> tr"

section \<open>Health check\<close>

text \<open>The probe result \<open>{success, url, error}\<close>; an absent field is \<open>None\<close>.\<close>

record health_result =
  success :: bool
  result_url :: "string option option"
  result_error :: "axios_error option"

text \<open>\<open>response.data && response.data.status === 'ok'\<close>\<close>

definition data_ok :: "http_response \<Rightarrow> bool" where
  "data_ok r = (truthy (data r) \<and> get_prop (data r) ''status'' = Some (JStr ''ok''))"

text \<open>\<open>s.replace(/\\/+$/, '')\<close>: the trailing run of slashes is removed.\<close>

definition strip_trailing_slashes :: "string \<Rightarrow> string" where
  "strip_trailing_slashes s = rev (dropWhile (\<lambda>c. c = CHR ''/'') (rev s))"

text \<open>The variant with error classification. The loop variable is \<open>i\<close>; the \<open>try\<close> body
  is the \<open>Inr\<close> branch of the request, the \<open>catch\<close> block the \<open>Inl\<close> branch.\<close>

function checkApiHealth_loop_p0 ::
  "network \<Rightarrow> string option \<Rightarrow> string option \<Rightarrow> int \<Rightarrow> int \<Rightarrow> event list
     \<Rightarrow> event list \<times> (axios_error + health_result)" where
  "checkApiHealth_loop_p0 net u cleanUrl retries i tr =
     (if i < retries then
        (let healthUrl = (if truthy_str cleanUrl then the cleanUrl @ ''/api/health''
                          else ''/api/health'')
         in case axios_get net healthUrl 10000 (\<lambda>s. s < 500)
                   [(''Accept'', ''application/json'')] tr of
              (tr1, Inr resp) \<Rightarrow>
                if data_ok resp
                then (tr1, Inr \<lparr>success = True, result_url = Some u, result_error = None\<rparr>)
                else checkApiHealth_loop_p0 net u cleanUrl retries (i + 1) tr1
            | (tr1, Inl err) \<Rightarrow>
                if code err = Some ''ERR_NAME_NOT_RESOLVED'' \<or> code err = Some ''ERR_NETWORK''
                   \<or> code err = Some ''ECONNABORTED''
                then (if i = retries - 1
                      then (tr1, Inr \<lparr>success = False, result_url = None,
                                      result_error = Some err\<rparr>)
                      else checkApiHealth_loop_p0 net u cleanUrl retries (i + 1)
                             (tr1 @ [Sleep (2000 * (i + 1))]))
                else if i = retries - 1
                then (tr1, Inr \<lparr>success = False, result_url = None, result_error = Some err\<rparr>)
                else checkApiHealth_loop_p0 net u cleanUrl retries (i + 1)
                       (tr1 @ [Sleep (1000 * (i + 1))]))
      else (tr, Inr \<lparr>success = False, result_url = None, result_error = None\<rparr>))"
  by pat_completeness auto
termination
  by (relation "measure (\<lambda>(net, u, cleanUrl, retries, i, tr). nat (retries - i))") auto

declare checkApiHealth_loop_p0.simps [simp del]

definition checkApiHealth_p0 ::
  "network \<Rightarrow> string option \<Rightarrow> int \<Rightarrow> event list
     \<Rightarrow> event list \<times> (axios_error + health_result)" where
  "checkApiHealth_p0 net u retries tr =
     (let cleanUrl = (if truthy_str u then Some (strip_trailing_slashes (the u)) else u)
      in checkApiHealth_loop_p0 net u cleanUrl retries 0 tr)"

text \<open>The variant without classification: \<open>`${url}/api/health`\<close> prints \<open>null\<close> as text.\<close>

fun template_str :: "string option \<Rightarrow> string" where
  "template_str None = ''null''"
| "template_str (Some s) = s"

function checkApiHealth_loop_p1 ::
  "network \<Rightarrow> string option \<Rightarrow> int \<Rightarrow> int \<Rightarrow> event list
     \<Rightarrow> event list \<times> (axios_error + health_result)" where
  "checkApiHealth_loop_p1 net u retries i tr =
     (if i < retries then
        (case axios_get net (template_str u @ ''/api/health'') 5000 (\<lambda>s. s < 500) [] tr of
           (tr1, Inr resp) \<Rightarrow>
             if data_ok resp
             then (tr1, Inr \<lparr>success = True, result_url = Some u, result_error = None\<rparr>)
             else checkApiHealth_loop_p1 net u retries (i + 1) tr1
         | (tr1, Inl err) \<Rightarrow>
             if i = retries - 1
             then (tr1, Inr \<lparr>success = False, result_url = None, result_error = Some err\<rparr>)
             else checkApiHealth_loop_p1 net u retries (i + 1)
                    (tr1 @ [Sleep (1000 * (i + 1))]))
      else (tr, Inr \<lparr>success = False, result_url = None, result_error = None\<rparr>))"
  by pat_completeness auto
termination
  by (relation "measure (\<lambda>(net, u, retries, i, tr). nat (retries - i))") auto

declare checkApiHealth_loop_p1.simps [simp del]

definition checkApiHealth_p1 ::
  "network \<Rightarrow> string option \<Rightarrow> int \<Rightarrow> event list
     \<Rightarrow> event list \<times> (axios_error + health_result)" where
  "checkApiHealth_p1 net u retries tr = checkApiHealth_loop_p1 net u retries 0 tr"

section \<open>Text helpers of the language\<close>

text \<open>\<open>s.trim()\<close>: white space and line terminators are removed at both ends (the code
  points below 256 that count as such).\<close>

definition is_space :: "char \<Rightarrow> bool" where
  "is_space c = (of_char c \<in> {9::nat, 10, 11, 12, 13, 32, 160})"

definition trim :: "string \<Rightarrow> string" where
  "trim s = rev (dropWhile is_space (rev (dropWhile is_space s)))"

text \<open>\<open>s.includes(p)\<close>\<close>

fun str_includes :: "string \<Rightarrow> string \<Rightarrow> bool" where
  "str_includes [] p = (p = [])"
| "str_includes (c # cs) p = (prefix p (c # cs) \<or> str_includes cs p)"

text \<open>\<open>s.replace(p, r)\<close> with a string pattern: the first occurrence of \<open>p\<close> is replaced by
  \<open>r\<close>, in which \<open>$$\<close>, \<open>$&\<close>, \<open>$`\<close> and \<open>$'\<close> stand for a dollar sign, the match, the text
  before it and the text after it.\<close>

fun find_first :: "string \<Rightarrow> string \<Rightarrow> (string \<times> string) option" where
  "find_first p [] = (if p = [] then Some ([], []) else None)"
| "find_first p (c # cs) =
     (if prefix p (c # cs) then Some ([], drop (length p) (c # cs))
      else map_option (\<lambda>(b, a). (c # b, a)) (find_first p cs))"

fun expand :: "string \<Rightarrow> string \<Rightarrow> string \<Rightarrow> string \<Rightarrow> string" where
  "expand (d # c # r) m b a =
     (if d = CHR ''$'' \<and> c = CHR ''$'' then CHR ''$'' # expand r m b a
      else if d = CHR ''$'' \<and> c = CHR ''&'' then m @ expand r m b a
      else if d = CHR ''$'' \<and> c = CHR 0x60 then b @ expand r m b a
      else if d = CHR ''$'' \<and> c = CHR 0x27 then a @ expand r m b a
      else d # expand (c # r) m b a)"
| "expand r m b a = r"

definition js_replace :: "string \<Rightarrow> string \<Rightarrow> string \<Rightarrow> string" where
  "js_replace s p r =
     (case find_first p s of None \<Rightarrow> s | Some (b, a) \<Rightarrow> b @ expand r p b a @ a)"

section \<open>Module state and configuration\<close>

text \<open>The build-time variable \<open>VITE_API_URL\<close> and the host name of the page.\<close>

record environment =
  VITE_API_URL :: "string option"
  hostname :: string

text \<open>A client made by \<open>axios.create\<close>: its defaults, and which creation it was (object
  identity).\<close>

record axios_instance =
  instance_id :: nat
  default_baseURL :: "string option"
  default_timeout :: nat
  default_headers :: "(string \<times> string) list"

text \<open>The module-level variables, and the trace of what has happened.\<close>

record state =
  cachedApiUrl :: "string option"
  apiUrlChecked :: bool
  apiInstance :: "axios_instance option"
  trace :: "event list"

definition initial_state :: state where
  "initial_state = \<lparr>cachedApiUrl = None, apiUrlChecked = False, apiInstance = None, trace = []\<rparr>"

fun is_create :: "event \<Rightarrow> bool" where
  "is_create (Create b) = True"
| "is_create e = False"

definition axios_create :: "string option \<Rightarrow> state \<Rightarrow> state \<times> axios_instance" where
  "axios_create b st =
     (st\<lparr>trace := trace st @ [Create b]\<rparr>,
      \<lparr>instance_id = length (filter is_create (trace st)), default_baseURL = b,
       default_timeout = 30000,
       default_headers = [(''Content-Type'', ''application/json'')]\<rparr>)"

text \<open>The calls the pages make through the \<open>api\<close> object, and the request each one hands to
  the client: the client's defaults, overridden by what the call sets. The upload timeout
  is set by the first variant only. Progress callbacks are not part of the model.\<close>

datatype api_call =
    Upload json
  | GetResults
  | GetResult string
  | DownloadResult string
  | DeleteResult string
  | GetRequirements

definition base_config :: "axios_instance \<Rightarrow> string \<Rightarrow> string \<Rightarrow> request_config" where
  "base_config inst m u =
     \<lparr>http_method = m, baseURL = default_baseURL inst, url = u, payload = JNull,
      headers = default_headers inst, timeout = default_timeout inst, responseType = None,
      retry = False\<rparr>"

fun call_config :: "axios_instance \<Rightarrow> nat option \<Rightarrow> api_call \<Rightarrow> request_config" where
  "call_config inst t (Upload formData) =
     (base_config inst ''post'' ''/api/upload'')
       \<lparr>payload := formData, headers := [(''Content-Type'', ''multipart/form-data'')],
        timeout := (case t of None \<Rightarrow> default_timeout inst | Some ms \<Rightarrow> ms)\<rparr>"
| "call_config inst t GetResults = base_config inst ''get'' ''/api/results''"
| "call_config inst t (GetResult i) = base_config inst ''get'' (''/api/results/'' @ i)"
| "call_config inst t (DownloadResult i) =
     (base_config inst ''get'' (''/api/results/'' @ i @ ''/download''))
       \<lparr>responseType := Some ''blob''\<rparr>"
| "call_config inst t (DeleteResult i) = base_config inst ''delete'' (''/api/results/'' @ i)"
| "call_config inst t GetRequirements = base_config inst ''get'' ''/api/requirements''"

text \<open>The client's own \<open>validateStatus\<close>.\<close>

definition default_validate :: "nat \<Rightarrow> bool" where
  "default_validate s = (200 \<le> s \<and> s < 300)"

section \<open>The normalising variant\<close>

definition getApiUrl_p0 :: "environment \<Rightarrow> string" where
  "getApiUrl_p0 env =
     (let envUrl = VITE_API_URL env; localUrl = ''http://localhost:5000''
      in if truthy_str envUrl \<and> trim (the envUrl) \<noteq> []
         then strip_trailing_slashes (trim (the envUrl))
         else localUrl)"

definition getApiUrlWithFallback_p0 :: "environment \<Rightarrow> state \<Rightarrow> state \<times> string" where
  "getApiUrlWithFallback_p0 env st =
     (if truthy_str (cachedApiUrl st) \<and> apiUrlChecked st then (st, the (cachedApiUrl st))
      else (let apiUrl = getApiUrl_p0 env
            in (st\<lparr>cachedApiUrl := Some apiUrl, apiUrlChecked := True\<rparr>, apiUrl)))"

text \<open>The response interceptor's error handler.\<close>

definition enhance_p0 :: "axios_error \<Rightarrow> axios_error" where
  "enhance_p0 err =
     (if code err = Some ''ERR_NETWORK'' \<or> code err = Some ''ERR_NAME_NOT_RESOLVED''
      then err\<lparr>userMessage := Some (JStr
        ''Cannot connect to server. Please check your connection and try again.'')\<rparr>
      else if code err = Some ''ECONNABORTED'' \<and> str_includes (message err) ''timeout''
      then err\<lparr>userMessage := Some (JStr
        ''Upload timeout: The server is taking too long to respond. This may happen if the service is waking up. Please try again.'')\<rparr>
      else (case response err of
              Some r \<Rightarrow>
                err\<lparr>userMessage :=
                  (case get_prop (data r) ''message'' of
                     Some v \<Rightarrow> if truthy v then Some v else Some (JStr (message err))
                   | None \<Rightarrow> Some (JStr (message err)))\<rparr>
            | None \<Rightarrow>
                err\<lparr>userMessage :=
                  Some (JStr (if message err \<noteq> [] then message err
                              else ''An unexpected error occurred''))\<rparr>))"

text \<open>The request interceptor, then the transport, then the response interceptor.\<close>

definition request_p0 ::
  "network \<Rightarrow> request_config \<Rightarrow> state \<Rightarrow> state \<times> (axios_error + http_response)" where
  "request_p0 net config0 st =
     (let config = (if truthy_str (cachedApiUrl st)
                    then config0\<lparr>baseURL := Some (strip_trailing_slashes (the (cachedApiUrl st)))\<rparr>
                    else config0)
      in case dispatch net default_validate config (trace st) of
           (tr1, Inr resp) \<Rightarrow> (st\<lparr>trace := tr1\<rparr>, Inr resp)
         | (tr1, Inl err) \<Rightarrow> (st\<lparr>trace := tr1\<rparr>, Inl (enhance_p0 err)))"

definition createApiInstance_p0 :: "environment \<Rightarrow> state \<Rightarrow> state \<times> axios_instance" where
  "createApiInstance_p0 env st =
     (case getApiUrlWithFallback_p0 env st of
        (st1, apiUrl) \<Rightarrow>
          (let cleanBaseUrl = (if apiUrl \<noteq> [] then strip_trailing_slashes apiUrl else apiUrl)
           in axios_create (Some cleanBaseUrl) st1))"

definition getApiInstance_p0 :: "environment \<Rightarrow> state \<Rightarrow> state \<times> axios_instance" where
  "getApiInstance_p0 env st =
     (case apiInstance st of
        None \<Rightarrow> (case createApiInstance_p0 env st of
                   (st1, inst) \<Rightarrow> (st1\<lparr>apiInstance := Some inst\<rparr>, inst))
      | Some inst \<Rightarrow> (st, inst))"

definition api_p0 ::
  "environment \<Rightarrow> network \<Rightarrow> api_call \<Rightarrow> state \<Rightarrow> state \<times> (axios_error + http_response)" where
  "api_p0 env net c st =
     (case getApiInstance_p0 env st of
        (st1, inst) \<Rightarrow> request_p0 net (call_config inst (Some 120000) c) st1)"

definition healthCheck_p0 ::
  "environment \<Rightarrow> network \<Rightarrow> state \<Rightarrow> state \<times> (axios_error + health_result)" where
  "healthCheck_p0 env net st =
     (case getApiUrlWithFallback_p0 env st of
        (st1, apiUrl) \<Rightarrow>
          (case checkApiHealth_p0 net (Some apiUrl) 3 (trace st1) of
             (tr1, r) \<Rightarrow> (st1\<lparr>trace := tr1\<rparr>, r)))"

section \<open>The auto-detecting variant\<close>

definition getApiUrl_p1 :: "environment \<Rightarrow> string option" where
  "getApiUrl_p1 env =
     (let envUrl = VITE_API_URL env; localUrl = ''http://localhost:5000''
      in if \<not> truthy_str envUrl \<or> envUrl = Some localUrl
         then (let isProduction = (hostname env \<noteq> ''localhost'')
               in if isProduction then None else Some localUrl)
         else envUrl)"

definition possibleUrls :: "string list" where
  "possibleUrls =
     filter (\<lambda>u. u \<noteq> [])
       [''https://filebackend-production.up.railway.app'',
        ''https://filebackend-production-b095.up.railway.app'']"

text \<open>The loop over the candidates; a rejection of the probe is caught and the loop goes on.\<close>

fun detect_candidates ::
  "network \<Rightarrow> string list \<Rightarrow> event list \<Rightarrow> event list \<times> (axios_error + string option)" where
  "detect_candidates net [] tr =
     (tr @ [ConsoleWarn
        [''Could not auto-detect API URL. Please set VITE_API_URL environment variable.'']],
      Inr None)"
| "detect_candidates net (u # us) tr =
     (case checkApiHealth_p1 net (Some u) 2 tr of
        (tr1, Inr health) \<Rightarrow>
          if success health
          then (tr1 @ [ConsoleLog [''Auto-detected API URL:'', u]], Inr (Some u))
          else detect_candidates net us tr1
      | (tr1, Inl err) \<Rightarrow> detect_candidates net us tr1)"

definition detectApiUrl_p1 ::
  "environment \<Rightarrow> network \<Rightarrow> event list \<Rightarrow> event list \<times> (axios_error + string option)" where
  "detectApiUrl_p1 env net tr =
     (if truthy_str (VITE_API_URL env)
      then (case checkApiHealth_p1 net (VITE_API_URL env) 2 tr of
              (tr1, Inl err) \<Rightarrow> (tr1, Inl err)
            | (tr1, Inr health) \<Rightarrow>
                if success health then (tr1, Inr (VITE_API_URL env))
                else detect_candidates net possibleUrls tr1)
      else detect_candidates net possibleUrls tr)"

text \<open>A rejection of an awaited call leaves the function as a rejection (\<open>Inl\<close>).\<close>

definition getApiUrlWithFallback_p1 ::
  "environment \<Rightarrow> network \<Rightarrow> state \<Rightarrow> state \<times> (axios_error + string)" where
  "getApiUrlWithFallback_p1 env net st =
     (if truthy_str (cachedApiUrl st) \<and> apiUrlChecked st
      then (st, Inr (the (cachedApiUrl st)))
      else
        (let apiUrl = getApiUrl_p1 env
         in case (if \<not> truthy_str apiUrl then (trace st, Inr True)
                  else (case checkApiHealth_p1 net apiUrl 1 (trace st) of
                          (tr1, Inl err) \<Rightarrow> (tr1, Inl err)
                        | (tr1, Inr health) \<Rightarrow> (tr1, Inr (\<not> success health)))) of
              (tr1, Inl err) \<Rightarrow> (st\<lparr>trace := tr1\<rparr>, Inl err)
            | (tr1, Inr False) \<Rightarrow>
                (st\<lparr>cachedApiUrl := apiUrl, apiUrlChecked := True, trace := tr1\<rparr>,
                 Inr (the apiUrl))
            | (tr1, Inr True) \<Rightarrow>
                (case detectApiUrl_p1 env net
                        (tr1 @ [ConsoleWarn
                           [''API URL not available, attempting auto-detection...'']]) of
                   (tr2, Inl err) \<Rightarrow> (st\<lparr>trace := tr2\<rparr>, Inl err)
                 | (tr2, Inr detected) \<Rightarrow>
                     (let apiUrl2 =
                        (if \<not> truthy_str detected
                         then (if truthy_str (VITE_API_URL env) then the (VITE_API_URL env)
                               else ''http://localhost:5000'')
                         else the detected)
                      in (st\<lparr>cachedApiUrl := Some apiUrl2, apiUrlChecked := True,
                             trace := tr2\<rparr>,
                          Inr apiUrl2)))))"

text \<open>The wake-up loop, \<open>maxRetries = 3\<close>. \<open>continue\<close> skips the wait after the \<open>try\<close>
  statement; leaving the \<open>try\<close> or the last \<open>else\<close> branch normally reaches it.\<close>

definition wait_between :: "nat \<Rightarrow> event list \<Rightarrow> event list" where
  "wait_between attempt tr = (if attempt < 3 then tr @ [Sleep (2000 * int attempt)] else tr)"

function wakeUp_loop ::
  "network \<Rightarrow> string \<Rightarrow> nat \<Rightarrow> event list \<Rightarrow> event list \<times> (axios_error + bool)" where
  "wakeUp_loop net apiUrl attempt tr =
     (if attempt \<le> 3 then
        (let t = (if attempt = 1 then 5000 else 15000)
         in case axios_get net (apiUrl @ ''/api/health'') t (\<lambda>s. s < 500) [] tr of
              (tr1, Inr resp) \<Rightarrow>
                if data_ok resp
                then (tr1 @ [ConsoleLog [''Server is awake and responding'']], Inr True)
                else wakeUp_loop net apiUrl (attempt + 1) (wait_between attempt tr1)
            | (tr1, Inl err) \<Rightarrow>
                (let isLastAttempt = (attempt = 3)
                 in if code err = Some ''ERR_NAME_NOT_RESOLVED''
                    then (if isLastAttempt
                          then (tr1 @ [ConsoleWarn
                                  [''Server wake-up failed after 3 attempts:'', message err]],
                                Inr False)
                          else wakeUp_loop net apiUrl (attempt + 1)
                                 (tr1 @ [Sleep (2000 * int attempt)]))
                    else if code err = Some ''ECONNABORTED'' \<or> code err = Some ''ETIMEDOUT''
                    then (if isLastAttempt
                          then (tr1 @ [ConsoleWarn
                                  [''Server wake-up timed out after 3 attempts'']],
                                Inr False)
                          else wakeUp_loop net apiUrl (attempt + 1)
                                 (tr1 @ [Sleep (2000 * int attempt)]))
                    else (let tr2 = tr1 @ [ConsoleWarn
                                [''Server wake-up attempt '' @ show_nat attempt @ '' failed:'',
                                 message err]]
                          in if isLastAttempt then (tr2, Inr False)
                             else wakeUp_loop net apiUrl (attempt + 1)
                                    (wait_between attempt tr2))))
      else (tr, Inr False))"
  by pat_completeness auto
termination
  by (relation "measure (\<lambda>(net, apiUrl, attempt, tr). 4 - attempt)") auto

declare wakeUp_loop.simps [simp del]

definition wakeUpServer_p1 ::
  "environment \<Rightarrow> network \<Rightarrow> string option \<Rightarrow> state \<Rightarrow> state \<times> (axios_error + bool)" where
  "wakeUpServer_p1 env net apiUrl st =
     (case (if \<not> truthy_str apiUrl then getApiUrlWithFallback_p1 env net st
            else (st, Inr (the apiUrl))) of
        (st1, Inl err) \<Rightarrow> (st1, Inl err)
      | (st1, Inr u) \<Rightarrow>
          (case wakeUp_loop net u 1 (trace st1) of (tr1, r) \<Rightarrow> (st1\<lparr>trace := tr1\<rparr>, r)))"

text \<open>The response interceptor's error handler: the message it attaches, and the object it
  rejects with when the retry path itself raised.\<close>

definition enhance_p1 :: "axios_error \<Rightarrow> axios_error" where
  "enhance_p1 err =
     (if code err = Some ''ERR_NETWORK'' \<or> code err = Some ''ERR_NAME_NOT_RESOLVED''
      then err\<lparr>userMessage := Some (JStr
        ''Cannot connect to server. The server may be sleeping or unavailable. Please try again in a moment.'')\<rparr>
      else (case response err of
              Some r \<Rightarrow>
                err\<lparr>userMessage :=
                  (case get_prop (data r) ''message'' of
                     Some v \<Rightarrow> if truthy v then Some v else Some (JStr (message err))
                   | None \<Rightarrow> Some (JStr (message err)))\<rparr>
            | None \<Rightarrow>
                err\<lparr>userMessage :=
                  Some (JStr (if message err \<noteq> [] then message err
                              else ''An unexpected error occurred''))\<rparr>))"

definition retry_rejection :: "axios_error \<Rightarrow> axios_error" where
  "retry_rejection retryError =
     retryError\<lparr>message :=
       ''Unable to connect to server. The server may be sleeping or unavailable. Please try again in a moment.'',
       isRetryError := True\<rparr>"

definition log_event :: "event \<Rightarrow> state \<Rightarrow> state" where
  "log_event e st = st\<lparr>trace := trace st @ [e]\<rparr>"

text \<open>A call of the client: request interceptor, transport, response interceptor. The
  retry inside the error handler is a call of the client again, with the marker
  \<open>_retry\<close> (here \<open>retry\<close>) set on the request. Two properties of the library are taken
  as given: \<open>error.config\<close> is the request as the request interceptor left it, and a
  request handed to the client again keeps its fields, the marker included. The promise
  of the retried call is returned without \<open>await\<close>, so its rejection is not caught by the
  \<open>catch\<close> around it.\<close>

function request_p1 ::
  "environment \<Rightarrow> network \<Rightarrow> request_config \<Rightarrow> state
     \<Rightarrow> state \<times> (axios_error + http_response)" where
  "request_p1 env net config0 st =
     (let config = (if truthy_str (cachedApiUrl st) then config0\<lparr>baseURL := cachedApiUrl st\<rparr>
                    else config0)
      in case dispatch net default_validate config (trace st) of
           (tr1, Inr resp) \<Rightarrow> (st\<lparr>trace := tr1\<rparr>, Inr resp)
         | (tr1, Inl err) \<Rightarrow>
             if (code err = Some ''ERR_NETWORK'' \<or> code err = Some ''ERR_NAME_NOT_RESOLVED'')
                \<and> \<not> retry config
             then
               (let originalRequest = config\<lparr>retry := True\<rparr>;
                    st1 = log_event (ConsoleWarn
                            [''Network error detected, attempting to wake up server...''])
                            (st\<lparr>trace := tr1\<rparr>)
                in case getApiUrlWithFallback_p1 env net st1 of
                     (st2, Inl retryError) \<Rightarrow> (st2, Inl (retry_rejection retryError))
                   | (st2, Inr apiUrl) \<Rightarrow>
                       (case wakeUpServer_p1 env net (Some apiUrl) st2 of
                          (st3, Inl retryError) \<Rightarrow> (st3, Inl (retry_rejection retryError))
                        | (st3, Inr woke) \<Rightarrow>
                            if woke
                            then request_p1 env net (originalRequest\<lparr>baseURL := Some apiUrl\<rparr>)
                                   (log_event (ConsoleLog
                                      [''Server awakened, retrying request...'']) st3)
                            else
                              (let st4 = (log_event (ConsoleWarn
                                            [''Wake-up failed, refreshing API URL...'']) st3)
                                           \<lparr>cachedApiUrl := None, apiUrlChecked := False\<rparr>
                               in case getApiUrlWithFallback_p1 env net st4 of
                                    (st5, Inl retryError) \<Rightarrow>
                                      (st5, Inl (retry_rejection retryError))
                                  | (st5, Inr newApiUrl) \<Rightarrow>
                                      if newApiUrl \<noteq> apiUrl
                                      then request_p1 env net
                                             (originalRequest
                                                \<lparr>baseURL := Some newApiUrl,
                                                 url := js_replace (url originalRequest)
                                                          (if newApiUrl \<noteq> [] then newApiUrl
                                                           else []) newApiUrl\<rparr>)
                                             st5
                                      else (st5, Inl (enhance_p1 err)))))
             else (st\<lparr>trace := tr1\<rparr>, Inl (enhance_p1 err)))"
  by pat_completeness auto
termination
  by (relation "measure (\<lambda>(env, net, config0, st). if retry config0 then 0 else 1)")
    (auto split: if_splits)

declare request_p1.simps [simp del]

definition createApiInstance_p1 ::
  "environment \<Rightarrow> network \<Rightarrow> state \<Rightarrow> state \<times> (axios_error + axios_instance)" where
  "createApiInstance_p1 env net st =
     (case getApiUrlWithFallback_p1 env net st of
        (st1, Inl err) \<Rightarrow> (st1, Inl err)
      | (st1, Inr apiUrl) \<Rightarrow>
          (case axios_create (Some apiUrl) st1 of (st2, inst) \<Rightarrow> (st2, Inr inst)))"

definition getApiInstance_p1 ::
  "environment \<Rightarrow> network \<Rightarrow> state \<Rightarrow> state \<times> (axios_error + axios_instance)" where
  "getApiInstance_p1 env net st =
     (case apiInstance st of
        None \<Rightarrow> (case createApiInstance_p1 env net st of
                   (st1, Inl err) \<Rightarrow> (st1, Inl err)
                 | (st1, Inr inst) \<Rightarrow> (st1\<lparr>apiInstance := Some inst\<rparr>, Inr inst))
      | Some inst \<Rightarrow> (st, Inr inst))"

definition api_p1 ::
  "environment \<Rightarrow> network \<Rightarrow> api_call \<Rightarrow> state \<Rightarrow> state \<times> (axios_error + http_response)" where
  "api_p1 env net c st =
     (case getApiInstance_p1 env net st of
        (st1, Inl err) \<Rightarrow> (st1, Inl err)
      | (st1, Inr inst) \<Rightarrow> request_p1 env net (call_config inst None c) st1)"

definition healthCheck_p1 ::
  "environment \<Rightarrow> network \<Rightarrow> state \<Rightarrow> state \<times> (axios_error + health_result)" where
  "healthCheck_p1 env net st =
     (case getApiUrlWithFallback_p1 env net st of
        (st1, Inl err) \<Rightarrow> (st1, Inl err)
      | (st1, Inr apiUrl) \<Rightarrow>
          (case checkApiHealth_p1 net (Some apiUrl) 3 (trace st1) of
             (tr1, r) \<Rightarrow> (st1\<lparr>trace := tr1\<rparr>, r)))"

section \<open>Observations on runs\<close>

text \<open>The request a health probe hands to the transport, per variant, and the one the
  wake-up loop sends at a given attempt.\<close>

definition health_config_p0 :: "string option \<Rightarrow> request_config" where
  "health_config_p0 u =
     \<lparr>http_method = ''get'', baseURL = None,
      url = (if truthy_str u then strip_trailing_slashes (the u) @ ''/api/health''
             else ''/api/health''),
      payload = JNull, headers = [(''Accept'', ''application/json'')],
      timeout = 10000, responseType = None, retry = False\<rparr>"

definition health_config_p1 :: "string option \<Rightarrow> request_config" where
  "health_config_p1 u =
     \<lparr>http_method = ''get'', baseURL = None, url = template_str u @ ''/api/health'',
      payload = JNull, headers = [], timeout = 5000, responseType = None, retry = False\<rparr>"

definition wake_config :: "string \<Rightarrow> nat \<Rightarrow> request_config" where
  "wake_config u attempt =
     \<lparr>http_method = ''get'', baseURL = None, url = u @ ''/api/health'',
      payload = JNull, headers = [], timeout = (if attempt = 1 then 5000 else 15000),
      responseType = None, retry = False\<rparr>"

definition clean_p0 :: "string option \<Rightarrow> string option" where
  "clean_p0 u = (if truthy_str u then Some (strip_trailing_slashes (the u)) else u)"





text \<open>Example backends: unreachable, always healthy, always answering 500.\<close>

definition down_network :: network where
  "down_network tr c = Failed ''ERR_NETWORK'' ''Network Error''"

definition healthy_network :: network where
  "healthy_network tr c = Replied \<lparr>status = 200, data = JObj [(''status'', JStr ''ok'')]\<rparr>"

definition broken_network :: network where
  "broken_network tr c = Replied \<lparr>status = 500, data = JNull\<rparr>"


text \<open>The requests and the waits of a trace.\<close>

fun is_request :: "event \<Rightarrow> bool" where
  "is_request (Request c) = True"
| "is_request e = False"


text \<open>What probing, waiting and resolving may add to a trace: probe requests (no base URL,
  no retry marker), waits and console lines other than the announcement of a retry cycle;
  never the construction of a client.\<close>

definition retry_announcement :: event where
  "retry_announcement =
     ConsoleWarn [''Network error detected, attempting to wake up server...'']"

fun background :: "event \<Rightarrow> bool" where
  "background (Request c) = (baseURL c = None \<and> \<not> retry c)"
| "background (Sleep d) = True"
| "background (ConsoleLog l) = True"
| "background (ConsoleWarn l) = (ConsoleWarn l \<noteq> retry_announcement)"
| "background (Create b) = False"

text \<open>The probe sent after history \<open>tr\<close> is answered with an accepted status and a body
  \<open>{status: "ok"}\<close>.\<close>

definition ok_reply :: "network \<Rightarrow> event list \<Rightarrow> request_config \<Rightarrow> bool" where
  "ok_reply net tr c =
     (case net tr c of
        Failed cd m \<Rightarrow> False
      | Replied r \<Rightarrow> (status r = 0 \<or> status r < 500) \<and> data_ok r)"

text \<open>Example configurations: a development build with no configured URL, and a
  production build whose configured URL ends in a slash.\<close>

definition dev_environment :: environment where
  "dev_environment = \<lparr>VITE_API_URL = None, hostname = ''localhost''\<rparr>"

definition prod_environment :: environment where
  "prod_environment =
     \<lparr>VITE_API_URL = Some ''https://api.example.com/'', hostname = ''app.example.com''\<rparr>"

text \<open>The error class that starts the retry path, the request interceptor of the
  auto-detecting variant, and a call of its client that sends the request once and hands on
  the outcome (with the message of the error handler attached to a failure).\<close>

definition network_class :: "axios_error \<Rightarrow> bool" where
  "network_class err =
     (code err = Some ''ERR_NETWORK'' \<or> code err = Some ''ERR_NAME_NOT_RESOLVED'')"

definition intercepted :: "string option \<Rightarrow> request_config \<Rightarrow> request_config" where
  "intercepted cached config0 =
     (if truthy_str cached then config0\<lparr>baseURL := cached\<rparr> else config0)"

definition send_once_p1 ::
  "network \<Rightarrow> request_config \<Rightarrow> state \<Rightarrow> state \<times> (axios_error + http_response)" where
  "send_once_p1 net config0 st =
     (case dispatch net default_validate (intercepted (cachedApiUrl st) config0) (trace st) of
        (tr1, Inr resp) \<Rightarrow> (st\<lparr>trace := tr1\<rparr>, Inr resp)
      | (tr1, Inl err) \<Rightarrow> (st\<lparr>trace := tr1\<rparr>, Inl (enhance_p1 err)))"

text \<open>How often a trace announces a wake-and-retry cycle, and a backend that is
  permanently unreachable: every request fails with a network-class code.\<close>

definition retry_cycles :: "event list \<Rightarrow> nat" where
  "retry_cycles tr = length (filter (\<lambda>e. e = retry_announcement) tr)"

definition unreachable :: "network \<Rightarrow> bool" where
  "unreachable net =
     (\<forall>h c. \<exists>cd m. net h c = Failed cd m \<and>
                    (cd = ''ERR_NETWORK'' \<or> cd = ''ERR_NAME_NOT_RESOLVED''))"

text \<open>A request that carries the retry marker.\<close>

fun is_reissue :: "event \<Rightarrow> bool" where
  "is_reissue (Request c) = retry c"
| "is_reissue e = False"

text \<open>A backend on which every request times out, with the library's message for a
  30 second limit.\<close>

definition timeout_network :: network where
  "timeout_network tr c = Failed ''ECONNABORTED'' ''timeout of 30000ms exceeded''"

text \<open>What a call of the client may add to the trace after its first request: nothing, or
  (only for a request without the marker) the announcement of the retry cycle, probes and
  waits, and at the end at most one more request, which carries the marker.\<close>

definition retry_shape :: "bool \<Rightarrow> event list \<Rightarrow> bool" where
  "retry_shape marked rest =
     (rest = [] \<or>
      (\<not> marked \<and>
       (\<exists>bg tail. rest = retry_announcement # bg @ tail \<and> list_all background bg \<and>
                  (tail = [] \<or> (\<exists>c. tail = [Request c] \<and> retry c)))))"

text \<open>The errors the library itself produces: a transport failure or a refused status.\<close>

definition raw_error :: "axios_error \<Rightarrow> bool" where
  "raw_error err = ((\<exists>cd m. err = transport_error cd m) \<or> (\<exists>r. err = status_error r))"

text \<open>The message by error class, as the amended claim C8 words it: a connectivity
  message for a network or DNS failure; in the normalising variant the waking-up message
  for a timeout; for an error with an HTTP response the server's message when the body has
  a truthy one, else the error's own message; for anything else the error's own message or
  a generic text.\<close>

definition server_message :: "http_response \<Rightarrow> string \<Rightarrow> json" where
  "server_message r fallback =
     (case get_prop (data r) ''message'' of
        Some v \<Rightarrow> if truthy v then v else JStr fallback
      | None \<Rightarrow> JStr fallback)"

definition is_timeout :: "axios_error \<Rightarrow> bool" where
  "is_timeout err = (code err = Some ''ECONNABORTED'' \<and> str_includes (message err) ''timeout'')"

definition classified_message_p0 :: "axios_error \<Rightarrow> json" where
  "classified_message_p0 err =
     (if network_class err
      then JStr ''Cannot connect to server. Please check your connection and try again.''
      else if is_timeout err
      then JStr ''Upload timeout: The server is taking too long to respond. This may happen if the service is waking up. Please try again.''
      else (case response err of
              Some r \<Rightarrow> server_message r (message err)
            | None \<Rightarrow> JStr (if message err = [] then ''An unexpected error occurred''
                             else message err)))"

definition classified_message_p1 :: "axios_error \<Rightarrow> json" where
  "classified_message_p1 err =
     (if network_class err
      then JStr ''Cannot connect to server. The server may be sleeping or unavailable. Please try again in a moment.''
      else (case response err of
              Some r \<Rightarrow> server_message r (message err)
            | None \<Rightarrow> JStr (if message err = [] then ''An unexpected error occurred''
                             else message err)))"

text \<open>An example request and a state in which the base URL has been resolved.\<close>

definition example_request :: request_config where
  "example_request =
     \<lparr>http_method = ''get'', baseURL = Some ''http://localhost:5000'', url = ''/api/results'',
      payload = JNull, headers = [(''Content-Type'', ''application/json'')], timeout = 30000,
      responseType = None, retry = False\<rparr>"

definition resolved_state :: state where
  "resolved_state =
     \<lparr>cachedApiUrl = Some ''http://localhost:5000'', apiUrlChecked = True, apiInstance = None,
      trace = []\<rparr>"

section \<open>The module as a whole\<close>

text \<open>The calls the pages can make on the module, and a run of calls that do not overlap:
  each call has settled before the next one starts, so each is one step on the module's
  state. Such a run says nothing about calls started while another is suspended; those
  are modelled in the section on overlapping calls. The normalising variant exports no
  \<open>wakeUpServer\<close>; there the call does nothing.\<close>

datatype module_call =
    GetApiUrlWithFallback
  | WakeUpServer "string option"
  | GetApiInstance
  | Api api_call
  | HealthCheck

fun step_p0 :: "environment \<Rightarrow> network \<Rightarrow> module_call \<Rightarrow> state \<Rightarrow> state" where
  "step_p0 env net GetApiUrlWithFallback st = fst (getApiUrlWithFallback_p0 env st)"
| "step_p0 env net (WakeUpServer u) st = st"
| "step_p0 env net GetApiInstance st = fst (getApiInstance_p0 env st)"
| "step_p0 env net (Api c) st = fst (api_p0 env net c st)"
| "step_p0 env net HealthCheck st = fst (healthCheck_p0 env net st)"

fun step_p1 :: "environment \<Rightarrow> network \<Rightarrow> module_call \<Rightarrow> state \<Rightarrow> state" where
  "step_p1 env net GetApiUrlWithFallback st = fst (getApiUrlWithFallback_p1 env net st)"
| "step_p1 env net (WakeUpServer u) st = fst (wakeUpServer_p1 env net u st)"
| "step_p1 env net GetApiInstance st = fst (getApiInstance_p1 env net st)"
| "step_p1 env net (Api c) st = fst (api_p1 env net c st)"
| "step_p1 env net HealthCheck st = fst (healthCheck_p1 env net st)"

fun run_in_turn_p0 :: "environment \<Rightarrow> network \<Rightarrow> module_call list \<Rightarrow> state \<Rightarrow> state" where
  "run_in_turn_p0 env net [] st = st"
| "run_in_turn_p0 env net (c # cs) st = run_in_turn_p0 env net cs (step_p0 env net c st)"

fun run_in_turn_p1 :: "environment \<Rightarrow> network \<Rightarrow> module_call list \<Rightarrow> state \<Rightarrow> state" where
  "run_in_turn_p1 env net [] st = st"
| "run_in_turn_p1 env net (c # cs) st = run_in_turn_p1 env net cs (step_p1 env net c st)"

text \<open>A resolved and cached base URL is still the cached one afterwards.\<close>

definition keeps_cache :: "state \<Rightarrow> state \<Rightarrow> bool" where
  "keeps_cache st st' =
     (truthy_str (cachedApiUrl st) \<and> apiUrlChecked st \<longrightarrow>
        cachedApiUrl st' = cachedApiUrl st \<and> apiUrlChecked st')"

text \<open>From state \<open>st\<close> the events \<open>new\<close> lead to \<open>st'\<close>: the cache is kept unless a retry
  cycle was announced, a client once made stays the same and no other is made, and at most
  one is made if there was none.\<close>

definition advances :: "state \<Rightarrow> event list \<Rightarrow> state \<Rightarrow> bool" where
  "advances st new st' =
     (trace st' = trace st @ new \<and>
      (retry_cycles new = 0 \<longrightarrow> keeps_cache st st') \<and>
      (case apiInstance st of
         Some inst \<Rightarrow> apiInstance st' = Some inst \<and> filter is_create new = []
       | None \<Rightarrow> (apiInstance st' = None \<and> filter is_create new = []) \<or>
                 (apiInstance st' \<noteq> None \<and> length (filter is_create new) = 1)))"

text \<open>A string that ends in a slash.\<close>

definition ends_with_slash :: "string \<Rightarrow> bool" where
  "ends_with_slash s = (s \<noteq> [] \<and> last s = CHR ''/'')"

text \<open>A state in which the base URL is resolved and the client has been made.\<close>

definition ready_state :: state where
  "ready_state =
     \<lparr>cachedApiUrl = Some ''http://localhost:5000'', apiUrlChecked = True,
      apiInstance = Some \<lparr>instance_id = 0, default_baseURL = Some ''http://localhost:5000'',
                          default_timeout = 30000,
                          default_headers = [(''Content-Type'', ''application/json'')]\<rparr>,
      trace = [Create (Some ''http://localhost:5000'')]\<rparr>"

section \<open>Overlapping calls\<close>

text \<open>An async function runs in one piece up to its next \<open>await\<close>; there it is suspended
  and other code may run before it is resumed. A call in progress is either settled with a
  value or suspended with the code that runs, on the state as it is then, when it is
  resumed. Calling an async function runs its first piece at once.\<close>

datatype 'a progress = Settled 'a | Suspended "state \<Rightarrow> state \<times> 'a progress"

type_synonym 'a async = "state \<Rightarrow> state \<times> 'a progress"

text \<open>\<open>x = await g(...)\<close> followed by the code \<open>k\<close>: the first piece of \<open>g\<close> runs as part
  of the caller's current piece; the caller is then suspended and goes on with \<open>k\<close> in a
  later piece, once \<open>g\<close> has settled (\<open>map_prod id f (s, r)\<close> is \<open>(s, f r)\<close>).\<close>

primrec await_progress :: "'a progress \<Rightarrow> ('a \<Rightarrow> 'b async) \<Rightarrow> 'b progress" where
  "await_progress (Settled v) k = Suspended (k v)"
| "await_progress (Suspended g) k =
     Suspended (\<lambda>st. map_prod id (\<lambda>r. await_progress r k) (g st))"

definition await_call :: "'a async \<Rightarrow> ('a \<Rightarrow> 'b async) \<Rightarrow> 'b async" where
  "await_call g k st = map_prod id (\<lambda>r. await_progress r k) (g st)"

definition settle :: "'a \<Rightarrow> 'a async" where
  "settle v st = (st, Settled v)"

text \<open>Running the next piece of a call; running all its pieces with nothing in between; a
  call from start to settlement with nothing in between.\<close>

primrec resume :: "'a progress \<Rightarrow> 'a async" where
  "resume (Settled v) st = (st, Settled v)"
| "resume (Suspended g) st = g st"

primrec finish :: "'a progress \<Rightarrow> state \<Rightarrow> state \<times> 'a" where
  "finish (Settled v) st = (st, v)"
| "finish (Suspended g) st = (case map_prod id finish (g st) of (st1, h) \<Rightarrow> h st1)"

definition complete :: "'a async \<Rightarrow> state \<Rightarrow> state \<times> 'a" where
  "complete p st = (case p st of (st1, r) \<Rightarrow> finish r st1)"

text \<open>The normalising variant. \<open>getApiUrlWithFallback\<close> has no \<open>await\<close>: its body is one
  piece. \<open>createApiInstance\<close> awaits it, then makes the client. \<open>getApiInstance\<close> tests
  \<open>apiInstance\<close>, awaits \<open>createApiInstance\<close>, and only then assigns and returns.\<close>

definition getApiUrlWithFallback_async_p0 :: "environment \<Rightarrow> string async" where
  "getApiUrlWithFallback_async_p0 env st =
     (case getApiUrlWithFallback_p0 env st of (st1, apiUrl) \<Rightarrow> (st1, Settled apiUrl))"

definition createApiInstance_async_p0 :: "environment \<Rightarrow> axios_instance async" where
  "createApiInstance_async_p0 env =
     await_call (getApiUrlWithFallback_async_p0 env)
       (\<lambda>apiUrl st.
          (let cleanBaseUrl = (if apiUrl \<noteq> [] then strip_trailing_slashes apiUrl else apiUrl)
           in case axios_create (Some cleanBaseUrl) st of (st1, inst) \<Rightarrow> (st1, Settled inst)))"

definition getApiInstance_async_p0 :: "environment \<Rightarrow> axios_instance async" where
  "getApiInstance_async_p0 env st =
     (case apiInstance st of
        None \<Rightarrow>
          await_call (createApiInstance_async_p0 env)
            (\<lambda>inst st1. (st1\<lparr>apiInstance := Some inst\<rparr>, Settled inst)) st
      | Some inst \<Rightarrow> (st, Settled inst))"

text \<open>The auto-detecting variant. \<open>axios.get\<close> hands the request to the transport at once;
  its promise settles in a later piece. \<open>setTimeout\<close> likewise.\<close>

definition axios_get_async ::
  "network \<Rightarrow> string \<Rightarrow> nat \<Rightarrow> (nat \<Rightarrow> bool) \<Rightarrow> (string \<times> string) list
     \<Rightarrow> (axios_error + http_response) async" where
  "axios_get_async net u t validateStatus hs st =
     (case axios_get net u t validateStatus hs (trace st) of
        (tr1, out) \<Rightarrow> (st\<lparr>trace := tr1\<rparr>, Suspended (settle out)))"

definition sleep_async :: "int \<Rightarrow> unit async" where
  "sleep_async d st = (st\<lparr>trace := trace st @ [Sleep d]\<rparr>, Suspended (settle ()))"

function checkApiHealth_async_loop_p1 ::
  "network \<Rightarrow> string option \<Rightarrow> int \<Rightarrow> int \<Rightarrow> (axios_error + health_result) async" where
  "checkApiHealth_async_loop_p1 net u retries i =
     (if i < retries then
        await_call (axios_get_async net (template_str u @ ''/api/health'') 5000 (\<lambda>s. s < 500) [])
          (\<lambda>out. case out of
             Inr resp \<Rightarrow>
               if data_ok resp
               then settle (Inr \<lparr>success = True, result_url = Some u, result_error = None\<rparr>)
               else checkApiHealth_async_loop_p1 net u retries (i + 1)
           | Inl err \<Rightarrow>
               if i = retries - 1
               then settle (Inr \<lparr>success = False, result_url = None, result_error = Some err\<rparr>)
               else await_call (sleep_async (1000 * (i + 1)))
                      (\<lambda>_. checkApiHealth_async_loop_p1 net u retries (i + 1)))
      else settle (Inr \<lparr>success = False, result_url = None, result_error = None\<rparr>))"
  by pat_completeness auto
termination
  by (relation "measure (\<lambda>(net, u, retries, i). nat (retries - i))") auto

declare checkApiHealth_async_loop_p1.simps [simp del]

definition checkApiHealth_async_p1 ::
  "network \<Rightarrow> string option \<Rightarrow> int \<Rightarrow> (axios_error + health_result) async" where
  "checkApiHealth_async_p1 net u retries = checkApiHealth_async_loop_p1 net u retries 0"

fun detect_candidates_async ::
  "network \<Rightarrow> string list \<Rightarrow> (axios_error + string option) async" where
  "detect_candidates_async net [] =
     (\<lambda>st. (log_event (ConsoleWarn
        [''Could not auto-detect API URL. Please set VITE_API_URL environment variable.'']) st,
        Settled (Inr None)))"
| "detect_candidates_async net (u # us) =
     await_call (checkApiHealth_async_p1 net (Some u) 2)
       (\<lambda>out. case out of
          Inr health \<Rightarrow>
            if success health
            then (\<lambda>st. (log_event (ConsoleLog [''Auto-detected API URL:'', u]) st,
                        Settled (Inr (Some u))))
            else detect_candidates_async net us
        | Inl err \<Rightarrow> detect_candidates_async net us)"

definition detectApiUrl_async_p1 ::
  "environment \<Rightarrow> network \<Rightarrow> (axios_error + string option) async" where
  "detectApiUrl_async_p1 env net =
     (if truthy_str (VITE_API_URL env)
      then await_call (checkApiHealth_async_p1 net (VITE_API_URL env) 2)
             (\<lambda>out. case out of
                Inl err \<Rightarrow> settle (Inl err)
              | Inr health \<Rightarrow>
                  if success health then settle (Inr (VITE_API_URL env))
                  else detect_candidates_async net possibleUrls)
      else detect_candidates_async net possibleUrls)"

text \<open>The inside of the \<open>if\<close> of \<open>getApiUrlWithFallback\<close> (the warning, the awaited detection
  and the fallback) together with the assignment of the cache that follows it.\<close>

definition detect_and_cache_async_p1 ::
  "environment \<Rightarrow> network \<Rightarrow> (axios_error + string) async" where
  "detect_and_cache_async_p1 env net st =
     await_call (detectApiUrl_async_p1 env net)
       (\<lambda>out. case out of
          Inl err \<Rightarrow> settle (Inl err)
        | Inr detected \<Rightarrow>
            (\<lambda>st2.
               (let apiUrl2 =
                  (if \<not> truthy_str detected
                   then (if truthy_str (VITE_API_URL env) then the (VITE_API_URL env)
                         else ''http://localhost:5000'')
                   else the detected)
                in (st2\<lparr>cachedApiUrl := Some apiUrl2, apiUrlChecked := True\<rparr>,
                    Settled (Inr apiUrl2)))))
       (log_event (ConsoleWarn [''API URL not available, attempting auto-detection...'']) st)"

definition getApiUrlWithFallback_async_p1 ::
  "environment \<Rightarrow> network \<Rightarrow> (axios_error + string) async" where
  "getApiUrlWithFallback_async_p1 env net st =
     (if truthy_str (cachedApiUrl st) \<and> apiUrlChecked st
      then (st, Settled (Inr (the (cachedApiUrl st))))
      else
        (let apiUrl = getApiUrl_p1 env
         in if \<not> truthy_str apiUrl then detect_and_cache_async_p1 env net st
            else await_call (checkApiHealth_async_p1 net apiUrl 1)
                   (\<lambda>out. case out of
                      Inl err \<Rightarrow> settle (Inl err)
                    | Inr health \<Rightarrow>
                        if \<not> success health then detect_and_cache_async_p1 env net
                        else (\<lambda>st1. (st1\<lparr>cachedApiUrl := apiUrl, apiUrlChecked := True\<rparr>,
                                     Settled (Inr (the apiUrl))))) st))"

definition createApiInstance_async_p1 ::
  "environment \<Rightarrow> network \<Rightarrow> (axios_error + axios_instance) async" where
  "createApiInstance_async_p1 env net =
     await_call (getApiUrlWithFallback_async_p1 env net)
       (\<lambda>out. case out of
          Inl err \<Rightarrow> settle (Inl err)
        | Inr apiUrl \<Rightarrow>
            (\<lambda>st. case axios_create (Some apiUrl) st of (st1, inst) \<Rightarrow> (st1, Settled (Inr inst))))"

definition getApiInstance_async_p1 ::
  "environment \<Rightarrow> network \<Rightarrow> (axios_error + axios_instance) async" where
  "getApiInstance_async_p1 env net st =
     (case apiInstance st of
        None \<Rightarrow>
          await_call (createApiInstance_async_p1 env net)
            (\<lambda>out. case out of
               Inl err \<Rightarrow> settle (Inl err)
             | Inr inst \<Rightarrow> (\<lambda>st1. (st1\<lparr>apiInstance := Some inst\<rparr>, Settled (Inr inst)))) st
      | Some inst \<Rightarrow> (st, Settled (Inr inst)))"

text \<open>Two calls started one right after the other, as two components of a page do: the first
  piece of the first, the first piece of the second, and then their later pieces in the
  order of a schedule (\<open>True\<close> resumes the first call, \<open>False\<close> the second).\<close>

fun interleave ::
  "bool list \<Rightarrow> 'a progress \<Rightarrow> 'b progress \<Rightarrow> state \<Rightarrow> state \<times> 'a progress \<times> 'b progress" where
  "interleave [] a b st = (st, a, b)"
| "interleave (True # sched) a b st =
     (case resume a st of (st1, a1) \<Rightarrow> interleave sched a1 b st1)"
| "interleave (False # sched) a b st =
     (case resume b st of (st1, b1) \<Rightarrow> interleave sched a b1 st1)"

definition overlapped ::
  "'a async \<Rightarrow> 'b async \<Rightarrow> bool list \<Rightarrow> state \<Rightarrow> state \<times> 'a progress \<times> 'b progress" where
  "overlapped p q sched st =
     (case p st of (st1, a) \<Rightarrow> (case q st1 of (st2, b) \<Rightarrow> interleave sched a b st2))"

text \<open>Example: a hosted page with no configured URL, a backend that answers the first probe
  it receives and is unreachable afterwards, and two overlapping resolutions of which the
  first is resumed until it has settled.\<close>

definition hosted_environment :: environment where
  "hosted_environment = \<lparr>VITE_API_URL = None, hostname = ''app.example.com''\<rparr>"

definition answers_once_network :: network where
  "answers_once_network tr c =
     (if list_ex is_request tr then Failed ''ERR_NETWORK'' ''Network Error''
      else Replied \<lparr>status = 200, data = JObj [(''status'', JStr ''ok'')]\<rparr>)"

definition overlapping_resolutions ::
  "state \<times> (axios_error + string) progress \<times> (axios_error + string) progress" where
  "overlapping_resolutions =
     overlapped (getApiUrlWithFallback_async_p1 hosted_environment answers_once_network)
       (getApiUrlWithFallback_async_p1 hosted_environment answers_once_network)
       [True, True, True, True] initial_state"

section \<open>The health check always returns a result\<close>

lemma loop_p0_returns:
  "\<exists>tr' r. checkApiHealth_loop_p0 net u cu retries i tr = (tr', Inr r)"
proof (induction net u cu retries i tr rule: checkApiHealth_loop_p0.induct)
  case (1 net u cleanUrl retries i tr)
  show ?case
    apply (subst checkApiHealth_loop_p0.simps)
    using 1 by (auto simp: Let_def split: prod.splits sum.splits)
qed

lemma loop_p1_returns:
  "\<exists>tr' r. checkApiHealth_loop_p1 net u retries i tr = (tr', Inr r)"
proof (induction net u retries i tr rule: checkApiHealth_loop_p1.induct)
  case (1 net u retries i tr)
  show ?case
    apply (subst checkApiHealth_loop_p1.simps)
    using 1 by (auto simp: Let_def split: prod.splits sum.splits)
qed

text \<open>
  Claim C4. For every url and every number of retries, in both variants,
  \<open>checkApiHealth\<close> returns: the promise is fulfilled with a result object (which has a
  \<open>success\<close> field) and is never rejected.
\<close>

theorem checkApiHealth_never_throws:
  "(\<exists>tr' r. checkApiHealth_p0 net u retries tr = (tr', Inr r)) \<and>
   (\<exists>tr' r. checkApiHealth_p1 net u retries tr = (tr', Inr r))"
  unfolding checkApiHealth_p0_def checkApiHealth_p1_def Let_def
  using loop_p0_returns loop_p1_returns by blast

section \<open>The health check against a backend that keeps failing\<close>



lemma axios_get_p0_eq:
  "axios_get net
      (if truthy_str (clean_p0 u) then the (clean_p0 u) @ ''/api/health'' else ''/api/health'')
      10000 v [(''Accept'', ''application/json'')] tr
   = dispatch net v (health_config_p0 u) tr"
  by (cases u) (auto simp: axios_get_def health_config_p0_def clean_p0_def)

lemma axios_get_p1_eq:
  "axios_get net (template_str u @ ''/api/health'') 5000 v [] tr
   = dispatch net v (health_config_p1 u) tr"
  by (simp add: axios_get_def health_config_p1_def)











text \<open>With no attempt allowed nothing is sent and the result is the bare
  \<open>{success: false}\<close>.\<close>

lemma checkApiHealth_no_attempts:
  assumes "retries \<le> 0"
  shows "checkApiHealth_p0 net u retries tr =
           (tr, Inr \<lparr>success = False, result_url = None, result_error = None\<rparr>)"
    and "checkApiHealth_p1 net u retries tr =
           (tr, Inr \<lparr>success = False, result_url = None, result_error = None\<rparr>)"
  using assms
  by (simp_all add: checkApiHealth_p0_def checkApiHealth_p1_def Let_def
      checkApiHealth_loop_p0.simps checkApiHealth_loop_p1.simps)



section \<open>The health check against a backend that answers, but not with ok\<close>









section \<open>Errors that are not transport errors, in the classifying variant\<close>

lemma code_status_error_500: "code (status_error \<lparr>status = 500, data = d\<rparr>) = Some ''ERR_BAD_RESPONSE''"
  by (simp add: status_error_def)


text \<open>
  Claim C6 (what the code does at the failing input). Against a backend that answers
  every probe with status 500, \<open>checkApiHealth(url, 3)\<close> of the classifying variant does
  not return at the first failure: it sends three requests and waits 1000 and 2000
  milliseconds in between, although the comment on that branch reads "return
  immediately".
\<close>

theorem checkApiHealth_p0_retries_server_error:
  "checkApiHealth_p0 broken_network (Some ''http://localhost:5000'') 3 [] =
     ([Request (health_config_p0 (Some ''http://localhost:5000'')), Sleep 1000,
       Request (health_config_p0 (Some ''http://localhost:5000'')), Sleep 2000,
       Request (health_config_p0 (Some ''http://localhost:5000''))],
      Inr \<lparr>success = False, result_url = None,
           result_error = Some (status_error \<lparr>status = 500, data = JNull\<rparr>)\<rparr>)"
proof -
  let ?u = "Some ''http://localhost:5000''"
  have d: "dispatch broken_network (\<lambda>s. s < 500) (health_config_p0 ?u) tr =
        (tr @ [Request (health_config_p0 ?u)], Inl (status_error \<lparr>status = 500, data = JNull\<rparr>))" for tr
    by (simp add: dispatch_def broken_network_def)
  have c: "clean_p0 ?u = ?u"
    by (simp add: clean_p0_def strip_trailing_slashes_def)
  have step: "checkApiHealth_loop_p0 broken_network ?u (clean_p0 ?u) 3 i tr =
      (if i < 3 then
         (if i = 2 then (tr @ [Request (health_config_p0 ?u)],
              Inr \<lparr>success = False, result_url = None,
                   result_error = Some (status_error \<lparr>status = 500, data = JNull\<rparr>)\<rparr>)
          else checkApiHealth_loop_p0 broken_network ?u (clean_p0 ?u) 3 (i + 1)
                 (tr @ [Request (health_config_p0 ?u), Sleep (1000 * (i + 1))]))
       else (tr, Inr \<lparr>success = False, result_url = None, result_error = None\<rparr>))" for i tr
    by (subst checkApiHealth_loop_p0.simps)
      (simp add: Let_def axios_get_p0_eq d code_status_error_500)
  show ?thesis
    unfolding checkApiHealth_p0_def Let_def
    using step[of 0 "[]"] step[of 1] step[of 2] c
    by (simp add: clean_p0_def)
qed
section \<open>What probing and resolving add to the trace\<close>

lemma health_config_sel [simp]:
  "baseURL (health_config_p0 u) = None" "retry (health_config_p0 u) = False"
  "baseURL (health_config_p1 u) = None" "retry (health_config_p1 u) = False"
  by (simp_all add: health_config_p0_def health_config_p1_def)

lemma dispatch_disj:
  "(\<exists>err. dispatch net v c tr = (tr @ [Request c], Inl err)) \<or>
   (\<exists>r. dispatch net v c tr = (tr @ [Request c], Inr r))"
  by (cases "net tr c") (simp_all add: dispatch_def)

lemma dispatch_cases:
  obtains err where "dispatch net v c tr = (tr @ [Request c], Inl err)"
  | r where "dispatch net v c tr = (tr @ [Request c], Inr r)"
  using dispatch_disj[of net v c tr] by blast

lemma loop_p1_unfold:
  assumes "i < retries"
  shows "checkApiHealth_loop_p1 net u retries i tr =
     (case dispatch net (\<lambda>s. s < 500) (health_config_p1 u) tr of
        (tr1, Inr resp) \<Rightarrow>
          if data_ok resp
          then (tr1, Inr \<lparr>success = True, result_url = Some u, result_error = None\<rparr>)
          else checkApiHealth_loop_p1 net u retries (i + 1) tr1
      | (tr1, Inl err) \<Rightarrow>
          if i = retries - 1
          then (tr1, Inr \<lparr>success = False, result_url = None, result_error = Some err\<rparr>)
          else checkApiHealth_loop_p1 net u retries (i + 1) (tr1 @ [Sleep (1000 * (i + 1))]))"
  using assms by (subst checkApiHealth_loop_p1.simps) (simp add: axios_get_p1_eq)

lemma loop_p0_unfold:
  assumes "i < retries"
  shows "checkApiHealth_loop_p0 net u (clean_p0 u) retries i tr =
     (case dispatch net (\<lambda>s. s < 500) (health_config_p0 u) tr of
        (tr1, Inr resp) \<Rightarrow>
          if data_ok resp
          then (tr1, Inr \<lparr>success = True, result_url = Some u, result_error = None\<rparr>)
          else checkApiHealth_loop_p0 net u (clean_p0 u) retries (i + 1) tr1
      | (tr1, Inl err) \<Rightarrow>
          if i = retries - 1
          then (tr1, Inr \<lparr>success = False, result_url = None, result_error = Some err\<rparr>)
          else checkApiHealth_loop_p0 net u (clean_p0 u) retries (i + 1)
                 (tr1 @ [Sleep ((if code err = Some ''ERR_NAME_NOT_RESOLVED''
                                    \<or> code err = Some ''ERR_NETWORK''
                                    \<or> code err = Some ''ECONNABORTED'' then 2000 else 1000)
                                 * (i + 1))]))"
  using assms
  by (subst checkApiHealth_loop_p0.simps)
    (auto simp: axios_get_p0_eq Let_def split: prod.splits sum.splits)

lemma loop_p1_step:
  assumes "i < retries"
  shows "\<exists>ev. list_all background ev \<and>
     (checkApiHealth_loop_p1 net u retries i tr
        = checkApiHealth_loop_p1 net u retries (i + 1) (tr @ Request (health_config_p1 u) # ev) \<or>
      (\<exists>r. checkApiHealth_loop_p1 net u retries i tr
        = (tr @ Request (health_config_p1 u) # ev, Inr r)))"
proof (cases rule: dispatch_cases[of net "\<lambda>s. s < 500" "health_config_p1 u" tr])
  case (1 err)
  show ?thesis
  proof (cases "i = retries - 1")
    case True
    then show ?thesis using loop_p1_unfold[OF assms, of net u tr] 1
      by (intro exI[of _ "[]"]) simp
  next
    case False
    then show ?thesis using loop_p1_unfold[OF assms, of net u tr] 1
      by (intro exI[of _ "[Sleep (1000 * (i + 1))]"]) simp
  qed
next
  case (2 r)
  then show ?thesis using loop_p1_unfold[OF assms, of net u tr]
    by (intro exI[of _ "[]"]) simp
qed

lemma loop_p0_step:
  assumes "i < retries"
  shows "\<exists>ev. list_all background ev \<and> filter is_request ev = [] \<and>
     (checkApiHealth_loop_p0 net u (clean_p0 u) retries i tr
        = checkApiHealth_loop_p0 net u (clean_p0 u) retries (i + 1)
            (tr @ Request (health_config_p0 u) # ev) \<or>
      (\<exists>r. checkApiHealth_loop_p0 net u (clean_p0 u) retries i tr
        = (tr @ Request (health_config_p0 u) # ev, Inr r)))"
proof (cases rule: dispatch_cases[of net "\<lambda>s. s < 500" "health_config_p0 u" tr])
  case (1 err)
  let ?d = "(if code err = Some ''ERR_NAME_NOT_RESOLVED'' \<or> code err = Some ''ERR_NETWORK''
                \<or> code err = Some ''ECONNABORTED'' then 2000 else 1000) * (i + 1)"
  show ?thesis
  proof (cases "i = retries - 1")
    case True
    then show ?thesis using loop_p0_unfold[OF assms, of net u tr] 1
      by (intro exI[of _ "[]"]) simp
  next
    case False
    then show ?thesis using loop_p0_unfold[OF assms, of net u tr] 1
      by (intro exI[of _ "[Sleep ?d]"]) simp
  qed
next
  case (2 r)
  then show ?thesis using loop_p0_unfold[OF assms, of net u tr]
    by (intro exI[of _ "[]"]) simp
qed

lemma loop_p1_shape:
  "\<exists>new r. checkApiHealth_loop_p1 net u retries i tr = (tr @ new, Inr r) \<and>
     list_all background new"
proof (induction "nat (retries - i)" arbitrary: i tr)
  case 0
  then show ?case by (subst checkApiHealth_loop_p1.simps) simp
next
  case (Suc n)
  then have lt: "i < retries" and n: "n = nat (retries - (i + 1))" by auto
  from loop_p1_step[OF lt, of net u tr] obtain ev where ev: "list_all background ev" and
    alt: "checkApiHealth_loop_p1 net u retries i tr
        = checkApiHealth_loop_p1 net u retries (i + 1) (tr @ Request (health_config_p1 u) # ev) \<or>
      (\<exists>r. checkApiHealth_loop_p1 net u retries i tr
        = (tr @ Request (health_config_p1 u) # ev, Inr r))" by blast
  from alt show ?case
  proof
    assume go: "checkApiHealth_loop_p1 net u retries i tr
        = checkApiHealth_loop_p1 net u retries (i + 1) (tr @ Request (health_config_p1 u) # ev)"
    from Suc.hyps(1)[OF n, of "tr @ Request (health_config_p1 u) # ev"] obtain new r where
      "checkApiHealth_loop_p1 net u retries (i + 1) (tr @ Request (health_config_p1 u) # ev)
         = ((tr @ Request (health_config_p1 u) # ev) @ new, Inr r)" "list_all background new"
      by blast
    then have "checkApiHealth_loop_p1 net u retries i tr
        = (tr @ (Request (health_config_p1 u) # ev @ new), Inr r) \<and>
        list_all background (Request (health_config_p1 u) # ev @ new)"
      using go ev by simp
    then show ?thesis by blast
  next
    assume "\<exists>r. checkApiHealth_loop_p1 net u retries i tr
        = (tr @ Request (health_config_p1 u) # ev, Inr r)"
    then obtain r where "checkApiHealth_loop_p1 net u retries i tr
        = (tr @ (Request (health_config_p1 u) # ev), Inr r) \<and>
        list_all background (Request (health_config_p1 u) # ev)" using ev by auto
    then show ?thesis by blast
  qed
qed

lemma loop_p0_shape:
  "\<exists>new r. checkApiHealth_loop_p0 net u (clean_p0 u) retries i tr = (tr @ new, Inr r) \<and>
     list_all background new \<and>
     (\<forall>e \<in> set new. is_request e \<longrightarrow> e = Request (health_config_p0 u))"
proof (induction "nat (retries - i)" arbitrary: i tr)
  case 0
  then show ?case by (subst checkApiHealth_loop_p0.simps) simp
next
  case (Suc n)
  let ?c = "health_config_p0 u"
  from Suc have lt: "i < retries" and n: "n = nat (retries - (i + 1))" by auto
  from loop_p0_step[OF lt, of net u tr] obtain ev where ev: "list_all background ev"
    "filter is_request ev = []" and
    alt: "checkApiHealth_loop_p0 net u (clean_p0 u) retries i tr
        = checkApiHealth_loop_p0 net u (clean_p0 u) retries (i + 1) (tr @ Request ?c # ev) \<or>
      (\<exists>r. checkApiHealth_loop_p0 net u (clean_p0 u) retries i tr
        = (tr @ Request ?c # ev, Inr r))" by blast
  have evr: "\<forall>e \<in> set ev. \<not> is_request e"
    using ev(2) by (simp add: filter_empty_conv)
  from alt show ?case
  proof
    assume go: "checkApiHealth_loop_p0 net u (clean_p0 u) retries i tr
        = checkApiHealth_loop_p0 net u (clean_p0 u) retries (i + 1) (tr @ Request ?c # ev)"
    from Suc.hyps(1)[OF n, of "tr @ Request ?c # ev"] obtain new r where
      "checkApiHealth_loop_p0 net u (clean_p0 u) retries (i + 1) (tr @ Request ?c # ev)
         = ((tr @ Request ?c # ev) @ new, Inr r)" "list_all background new"
      "\<forall>e \<in> set new. is_request e \<longrightarrow> e = Request ?c"
      by blast
    then have "checkApiHealth_loop_p0 net u (clean_p0 u) retries i tr
        = (tr @ (Request ?c # ev @ new), Inr r) \<and>
        list_all background (Request ?c # ev @ new) \<and>
        (\<forall>e \<in> set (Request ?c # ev @ new). is_request e \<longrightarrow> e = Request ?c)"
      using go ev(1) evr by auto
    then show ?thesis by blast
  next
    assume "\<exists>r. checkApiHealth_loop_p0 net u (clean_p0 u) retries i tr
        = (tr @ Request ?c # ev, Inr r)"
    then obtain r where "checkApiHealth_loop_p0 net u (clean_p0 u) retries i tr
        = (tr @ (Request ?c # ev), Inr r) \<and>
        list_all background (Request ?c # ev) \<and>
        (\<forall>e \<in> set (Request ?c # ev). is_request e \<longrightarrow> e = Request ?c)"
      using ev(1) evr by auto
    then show ?thesis by blast
  qed
qed

lemma checkApiHealth_p1_shape:
  "\<exists>new r. checkApiHealth_p1 net u retries tr = (tr @ new, Inr r) \<and> list_all background new"
  unfolding checkApiHealth_p1_def by (rule loop_p1_shape)

lemma checkApiHealth_p0_requests:
  "\<exists>new r. checkApiHealth_p0 net u retries tr = (tr @ new, Inr r) \<and> list_all background new \<and>
     (\<forall>e \<in> set new. is_request e \<longrightarrow> e = Request (health_config_p0 u))"
  using loop_p0_shape[of net u retries 0 tr]
  unfolding checkApiHealth_p0_def Let_def clean_p0_def by simp

lemma checkApiHealth_p0_shape:
  "\<exists>new r. checkApiHealth_p0 net u retries tr = (tr @ new, Inr r) \<and> list_all background new"
  using checkApiHealth_p0_requests[of net u retries tr] by blast

lemma detect_candidates_shape:
  "\<exists>new r. detect_candidates net us tr = (tr @ new, Inr r) \<and> list_all background new \<and>
     (r = None \<or> (\<exists>u \<in> set us. r = Some u))"
proof (induction us arbitrary: tr)
  case Nil
  show ?case by (simp add: retry_announcement_def)
next
  case (Cons u us)
  from checkApiHealth_p1_shape[of net "Some u" 2 tr] obtain new h where
    h: "checkApiHealth_p1 net (Some u) 2 tr = (tr @ new, Inr h)" "list_all background new" by blast
  show ?case
  proof (cases "success h")
    case True
    then have "detect_candidates net (u # us) tr
        = (tr @ (new @ [ConsoleLog [''Auto-detected API URL:'', u]]), Inr (Some u)) \<and>
       list_all background (new @ [ConsoleLog [''Auto-detected API URL:'', u]])"
      using h by simp
    then show ?thesis by (metis list.set_intros(1))
  next
    case False
    from Cons.IH[of "tr @ new"] obtain new' r where
      r: "detect_candidates net us (tr @ new) = ((tr @ new) @ new', Inr r)"
      "list_all background new'" "r = None \<or> (\<exists>u \<in> set us. r = Some u)" by blast
    then have "detect_candidates net (u # us) tr = (tr @ (new @ new'), Inr r) \<and>
       list_all background (new @ new') \<and> (r = None \<or> (\<exists>v \<in> set (u # us). r = Some v))"
      using h False by auto
    then show ?thesis by blast
  qed
qed

lemma possibleUrls_nonempty: "u \<in> set possibleUrls \<Longrightarrow> u \<noteq> []"
  by (auto simp: possibleUrls_def)

lemma detectApiUrl_p1_shape:
  "\<exists>new r. detectApiUrl_p1 env net tr = (tr @ new, Inr r) \<and> list_all background new \<and>
     (r = None \<or> truthy_str r)"
proof -
  have cand: "\<exists>new r. detect_candidates net possibleUrls t = (t @ new, Inr r) \<and>
      list_all background new \<and> (r = None \<or> truthy_str r)" for t
    using detect_candidates_shape[of net possibleUrls t] possibleUrls_nonempty by fastforce
  show ?thesis
  proof (cases "truthy_str (VITE_API_URL env)")
    case False
    then show ?thesis using cand[of tr] by (simp add: detectApiUrl_p1_def)
  next
    case True
    from checkApiHealth_p1_shape[of net "VITE_API_URL env" 2 tr] obtain new h where
      h: "checkApiHealth_p1 net (VITE_API_URL env) 2 tr = (tr @ new, Inr h)"
      "list_all background new" by blast
    show ?thesis
    proof (cases "success h")
      case s: True
      then show ?thesis using True h by (auto simp: detectApiUrl_p1_def)
    next
      case s: False
      from cand[of "tr @ new"] obtain new' r where
        "detect_candidates net possibleUrls (tr @ new) = ((tr @ new) @ new', Inr r)"
        "list_all background new'" "r = None \<or> truthy_str r" by blast
      then have "detectApiUrl_p1 env net tr = (tr @ (new @ new'), Inr r) \<and>
         list_all background (new @ new') \<and> (r = None \<or> truthy_str r)"
        using True h s by (simp add: detectApiUrl_p1_def)
      then show ?thesis by blast
    qed
  qed
qed

section \<open>The wake-up loop\<close>

lemma wake_config_sel [simp]:
  "baseURL (wake_config u a) = None" "retry (wake_config u a) = False"
  by (simp_all add: wake_config_def)

lemma retry_announcement_simps [simp]:
  "ConsoleWarn [a, b] \<noteq> retry_announcement"
  "ConsoleWarn [''Server wake-up timed out after 3 attempts''] \<noteq> retry_announcement"
  by (simp_all add: retry_announcement_def)

lemma wakeUp_loop_failed:
  assumes "attempt \<le> 3" and "net tr (wake_config u attempt) = Failed cd m"
  shows "wakeUp_loop net u attempt tr =
     (if cd = ''ERR_NAME_NOT_RESOLVED'' then
        (if attempt = 3
         then (tr @ [Request (wake_config u attempt),
                     ConsoleWarn [''Server wake-up failed after 3 attempts:'', m]], Inr False)
         else wakeUp_loop net u (attempt + 1)
                (tr @ [Request (wake_config u attempt), Sleep (2000 * int attempt)]))
      else if cd = ''ECONNABORTED'' \<or> cd = ''ETIMEDOUT'' then
        (if attempt = 3
         then (tr @ [Request (wake_config u attempt),
                     ConsoleWarn [''Server wake-up timed out after 3 attempts'']], Inr False)
         else wakeUp_loop net u (attempt + 1)
                (tr @ [Request (wake_config u attempt), Sleep (2000 * int attempt)]))
      else if attempt = 3
      then (tr @ [Request (wake_config u attempt),
                  ConsoleWarn [''Server wake-up attempt '' @ show_nat attempt @ '' failed:'', m]],
            Inr False)
      else wakeUp_loop net u (attempt + 1)
             (tr @ [Request (wake_config u attempt),
                    ConsoleWarn [''Server wake-up attempt '' @ show_nat attempt @ '' failed:'', m],
                    Sleep (2000 * int attempt)]))"
  using assms
  by (subst wakeUp_loop.simps)
    (simp add: Let_def axios_get_def wake_config_def dispatch_def transport_error_def
      wait_between_def)

lemma wakeUp_loop_replied:
  assumes "attempt \<le> 3" and "net tr (wake_config u attempt) = Replied r"
  shows "wakeUp_loop net u attempt tr =
     (if status r = 0 \<or> status r < 500 then
        (if data_ok r
         then (tr @ [Request (wake_config u attempt),
                     ConsoleLog [''Server is awake and responding'']], Inr True)
         else if attempt < 3
         then wakeUp_loop net u (attempt + 1)
                (tr @ [Request (wake_config u attempt), Sleep (2000 * int attempt)])
         else wakeUp_loop net u (attempt + 1) (tr @ [Request (wake_config u attempt)]))
      else if attempt = 3
      then (tr @ [Request (wake_config u attempt),
                  ConsoleWarn [''Server wake-up attempt '' @ show_nat attempt @ '' failed:'',
                               message (status_error r)]],
            Inr False)
      else wakeUp_loop net u (attempt + 1)
             (tr @ [Request (wake_config u attempt),
                    ConsoleWarn [''Server wake-up attempt '' @ show_nat attempt @ '' failed:'',
                                 message (status_error r)],
                    Sleep (2000 * int attempt)]))"
proof -
  have c: "code (status_error r) \<noteq> Some ''ERR_NAME_NOT_RESOLVED''"
    "code (status_error r) \<noteq> Some ''ECONNABORTED''" "code (status_error r) \<noteq> Some ''ETIMEDOUT''"
    by (simp_all add: status_error_def)
  show ?thesis
    using assms c
    by (subst wakeUp_loop.simps)
      (simp add: Let_def axios_get_def wake_config_def dispatch_def wait_between_def)
qed

text \<open>One round of the wake-up loop: it either stops with a result, which is \<open>true\<close> exactly
  when the probe was answered with ok, or goes on to the next attempt.\<close>

lemma wakeUp_loop_step:
  assumes "attempt \<le> 3"
  shows "\<exists>ev. list_all background ev \<and> filter is_request ev = [] \<and>
     ((\<not> ok_reply net tr (wake_config u attempt) \<and>
       wakeUp_loop net u attempt tr
         = wakeUp_loop net u (attempt + 1) (tr @ Request (wake_config u attempt) # ev)) \<or>
      ((ok_reply net tr (wake_config u attempt) \<or> attempt = 3) \<and>
       wakeUp_loop net u attempt tr
        = (tr @ Request (wake_config u attempt) # ev,
           Inr (ok_reply net tr (wake_config u attempt)))))"
proof (cases "net tr (wake_config u attempt)")
  case (Failed cd m)
  let ?w = "ConsoleWarn [''Server wake-up attempt '' @ show_nat attempt @ '' failed:'', m]"
  have n: "\<not> ok_reply net tr (wake_config u attempt)"
    using Failed by (simp add: ok_reply_def)
  consider (a) "cd = ''ERR_NAME_NOT_RESOLVED''" "attempt = 3"
    | (b) "cd = ''ERR_NAME_NOT_RESOLVED''" "attempt \<noteq> 3"
    | (c) "cd \<noteq> ''ERR_NAME_NOT_RESOLVED''" "cd = ''ECONNABORTED'' \<or> cd = ''ETIMEDOUT''" "attempt = 3"
    | (d) "cd \<noteq> ''ERR_NAME_NOT_RESOLVED''" "cd = ''ECONNABORTED'' \<or> cd = ''ETIMEDOUT''" "attempt \<noteq> 3"
    | (e) "cd \<noteq> ''ERR_NAME_NOT_RESOLVED''" "\<not> (cd = ''ECONNABORTED'' \<or> cd = ''ETIMEDOUT'')" "attempt = 3"
    | (f) "cd \<noteq> ''ERR_NAME_NOT_RESOLVED''" "\<not> (cd = ''ECONNABORTED'' \<or> cd = ''ETIMEDOUT'')" "attempt \<noteq> 3"
    by blast
  then show ?thesis
  proof cases
    case a
    then show ?thesis using wakeUp_loop_failed[where net = net and tr = tr and u = u, OF assms Failed] n
      by (intro exI[of _ "[ConsoleWarn [''Server wake-up failed after 3 attempts:'', m]]"]) simp
  next
    case b
    then show ?thesis using wakeUp_loop_failed[where net = net and tr = tr and u = u, OF assms Failed] n
      by (intro exI[of _ "[Sleep (2000 * int attempt)]"]) simp
  next
    case c
    then show ?thesis using wakeUp_loop_failed[where net = net and tr = tr and u = u, OF assms Failed] n
      by (intro exI[of _ "[ConsoleWarn [''Server wake-up timed out after 3 attempts'']]"]) simp
  next
    case d
    then show ?thesis using wakeUp_loop_failed[where net = net and tr = tr and u = u, OF assms Failed] n
      by (intro exI[of _ "[Sleep (2000 * int attempt)]"]) simp
  next
    case e
    then show ?thesis using wakeUp_loop_failed[where net = net and tr = tr and u = u, OF assms Failed] n
      by (intro exI[of _ "[?w]"]) simp
  next
    case f
    then show ?thesis using wakeUp_loop_failed[where net = net and tr = tr and u = u, OF assms Failed] n
      by (intro exI[of _ "[?w, Sleep (2000 * int attempt)]"]) simp
  qed
next
  case (Replied r)
  let ?w = "ConsoleWarn [''Server wake-up attempt '' @ show_nat attempt @ '' failed:'',
                               message (status_error r)]"
  have ok: "ok_reply net tr (wake_config u attempt) \<longleftrightarrow> (status r = 0 \<or> status r < 500) \<and> data_ok r"
    using Replied by (simp add: ok_reply_def)
  consider (a) "status r = 0 \<or> status r < 500" "data_ok r"
    | (b) "status r = 0 \<or> status r < 500" "\<not> data_ok r" "attempt < 3"
    | (c) "status r = 0 \<or> status r < 500" "\<not> data_ok r" "\<not> attempt < 3"
    | (d) "\<not> (status r = 0 \<or> status r < 500)" "attempt = 3"
    | (e) "\<not> (status r = 0 \<or> status r < 500)" "attempt \<noteq> 3"
    by blast
  then show ?thesis
  proof cases
    case a
    then show ?thesis using wakeUp_loop_replied[where net = net and tr = tr and u = u, OF assms Replied] ok
      by (intro exI[of _ "[ConsoleLog [''Server is awake and responding'']]"]) simp
  next
    case b
    then show ?thesis using wakeUp_loop_replied[where net = net and tr = tr and u = u, OF assms Replied] ok
      by (intro exI[of _ "[Sleep (2000 * int attempt)]"]) simp
  next
    case c
    then show ?thesis using wakeUp_loop_replied[where net = net and tr = tr and u = u, OF assms Replied] ok
      by (intro exI[of _ "[]"]) simp
  next
    case d
    then show ?thesis using wakeUp_loop_replied[where net = net and tr = tr and u = u, OF assms Replied] ok
      by (intro exI[of _ "[?w]"]) simp
  next
    case e
    then show ?thesis using wakeUp_loop_replied[where net = net and tr = tr and u = u, OF assms Replied] ok
      by (intro exI[of _ "[?w, Sleep (2000 * int attempt)]"]) simp
  qed
qed


lemma wakeUp_loop_bounded:
  "attempt \<le> 4 \<Longrightarrow>
   \<exists>new b. wakeUp_loop net u attempt tr = (tr @ new, Inr b) \<and> list_all background new \<and>
     length (filter is_request new) \<le> 4 - attempt \<and>
     (b \<longrightarrow> (\<exists>pre a. a \<le> 3 \<and> prefix (pre @ [Request (wake_config u a)]) new \<and>
                     ok_reply net (tr @ pre) (wake_config u a))) \<and>
     ((\<forall>h c. \<not> ok_reply net h c) \<longrightarrow> \<not> b \<and> length (filter is_request new) = 4 - attempt)"
proof (induction "4 - attempt" arbitrary: attempt tr)
  case 0
  then have "attempt = 4" by simp
  then show ?case by (subst wakeUp_loop.simps) auto
next
  case (Suc n)
  let ?c = "wake_config u attempt"
  have le: "attempt \<le> 3" using Suc.hyps(2) by simp
  from wakeUp_loop_step[OF le, of net tr u] obtain ev where
    ev: "list_all background ev" "filter is_request ev = []" and
    alt: "(\<not> ok_reply net tr ?c \<and>
            wakeUp_loop net u attempt tr = wakeUp_loop net u (attempt + 1) (tr @ Request ?c # ev)) \<or>
          ((ok_reply net tr ?c \<or> attempt = 3) \<and>
            wakeUp_loop net u attempt tr = (tr @ Request ?c # ev, Inr (ok_reply net tr ?c)))"
    by blast
  from alt show ?case
  proof
    assume go: "\<not> ok_reply net tr ?c \<and>
            wakeUp_loop net u attempt tr = wakeUp_loop net u (attempt + 1) (tr @ Request ?c # ev)"
    have n: "n = 4 - (attempt + 1)" and le4: "attempt + 1 \<le> 4" using Suc.hyps(2) by simp_all
    from Suc.hyps(1)[OF n le4, of "tr @ Request ?c # ev"] obtain new b where
      r: "wakeUp_loop net u (attempt + 1) (tr @ Request ?c # ev) = ((tr @ Request ?c # ev) @ new, Inr b)"
      and bg: "list_all background new"
      and cnt: "length (filter is_request new) \<le> 4 - (attempt + 1)"
      and tru: "b \<longrightarrow> (\<exists>pre a. a \<le> 3 \<and> prefix (pre @ [Request (wake_config u a)]) new \<and>
                     ok_reply net ((tr @ Request ?c # ev) @ pre) (wake_config u a))"
      and nev: "(\<forall>h c. \<not> ok_reply net h c) \<longrightarrow> \<not> b \<and> length (filter is_request new) = 4 - (attempt + 1)"
      by blast
    let ?new = "Request ?c # ev @ new"
    have 1: "wakeUp_loop net u attempt tr = (tr @ ?new, Inr b)" using go r by simp
    have 2: "list_all background ?new" using ev bg by simp
    have 3: "length (filter is_request ?new) \<le> 4 - attempt" using ev cnt le by simp
    have 4: "b \<longrightarrow> (\<exists>pre a. a \<le> 3 \<and> prefix (pre @ [Request (wake_config u a)]) ?new \<and>
                     ok_reply net (tr @ pre) (wake_config u a))"
    proof
      assume b
      with tru obtain pre a where p: "a \<le> 3" "prefix (pre @ [Request (wake_config u a)]) new"
        "ok_reply net ((tr @ Request ?c # ev) @ pre) (wake_config u a)" by blast
      have "prefix ((Request ?c # ev @ pre) @ [Request (wake_config u a)]) ?new"
        using p(2) by simp
      moreover have "ok_reply net (tr @ (Request ?c # ev @ pre)) (wake_config u a)"
        using p(3) by simp
      ultimately show "\<exists>pre a. a \<le> 3 \<and> prefix (pre @ [Request (wake_config u a)]) ?new \<and>
                     ok_reply net (tr @ pre) (wake_config u a)"
        using p(1) by blast
    qed
    have 5: "(\<forall>h c. \<not> ok_reply net h c) \<longrightarrow> \<not> b \<and> length (filter is_request ?new) = 4 - attempt"
      using nev ev le by auto
    from 1 2 3 4 5 show ?thesis by blast
  next
    assume stop: "(ok_reply net tr ?c \<or> attempt = 3) \<and>
            wakeUp_loop net u attempt tr = (tr @ Request ?c # ev, Inr (ok_reply net tr ?c))"
    let ?new = "Request ?c # ev"
    have 2: "list_all background ?new" using ev by simp
    have 3: "length (filter is_request ?new) \<le> 4 - attempt" using ev le by simp
    have 4: "ok_reply net tr ?c \<longrightarrow> (\<exists>pre a. a \<le> 3 \<and> prefix (pre @ [Request (wake_config u a)]) ?new \<and>
                     ok_reply net (tr @ pre) (wake_config u a))"
    proof
      assume "ok_reply net tr ?c"
      then have "attempt \<le> 3 \<and> prefix ([] @ [Request ?c]) ?new \<and> ok_reply net (tr @ []) ?c"
        using le by simp
      then show "\<exists>pre a. a \<le> 3 \<and> prefix (pre @ [Request (wake_config u a)]) ?new \<and>
                     ok_reply net (tr @ pre) (wake_config u a)" by blast
    qed
    have 5: "(\<forall>h c. \<not> ok_reply net h c) \<longrightarrow> \<not> ok_reply net tr ?c \<and> length (filter is_request ?new) = 4 - attempt"
      using stop ev by auto
    from stop 2 3 4 5 show ?thesis by blast
  qed
qed

section \<open>Resolving the base URL in the auto-detecting variant\<close>

lemma truthy_str_iff: "truthy_str x \<longleftrightarrow> (\<exists>u. x = Some u \<and> u \<noteq> [])"
  by (cases x) auto

lemma getApiUrl_p1_cases: "getApiUrl_p1 env = None \<or> truthy_str (getApiUrl_p1 env)"
  by (auto simp: getApiUrl_p1_def Let_def truthy_str_iff)

lemma getApiUrlWithFallback_p1_cached:
  assumes "cachedApiUrl st = Some u" "u \<noteq> []" "apiUrlChecked st"
  shows "getApiUrlWithFallback_p1 env net st = (st, Inr u)"
  using assms by (simp add: getApiUrlWithFallback_p1_def)

lemma getApiUrlWithFallback_p1_shape:
  "\<exists>new u. getApiUrlWithFallback_p1 env net st =
       (st\<lparr>cachedApiUrl := Some u, apiUrlChecked := True, trace := trace st @ new\<rparr>, Inr u) \<and>
     u \<noteq> [] \<and> list_all background new"
proof (cases "truthy_str (cachedApiUrl st) \<and> apiUrlChecked st")
  case True
  then obtain u where u: "cachedApiUrl st = Some u" "u \<noteq> []" "apiUrlChecked st"
    by (auto simp: truthy_str_iff)
  have "st = st\<lparr>cachedApiUrl := Some u, apiUrlChecked := True, trace := trace st @ []\<rparr>"
    using u by (cases st) simp
  then have "getApiUrlWithFallback_p1 env net st =
       (st\<lparr>cachedApiUrl := Some u, apiUrlChecked := True, trace := trace st @ []\<rparr>, Inr u) \<and>
     u \<noteq> [] \<and> list_all background []"
    using getApiUrlWithFallback_p1_cached[OF u, of env net] u(2) by simp
  then show ?thesis by blast
next
  case nc: False
  let ?w = "ConsoleWarn [''API URL not available, attempting auto-detection...'']"
  let ?fb = "\<lambda>r. (if \<not> truthy_str r
                   then (if truthy_str (VITE_API_URL env) then the (VITE_API_URL env)
                         else ''http://localhost:5000'')
                   else the r)"
  have fb: "?fb r \<noteq> []" for r by (auto simp: truthy_str_iff)
  have w: "background ?w" by (simp add: retry_announcement_def)
  show ?thesis
  proof (cases "truthy_str (getApiUrl_p1 env)")
    case False
    from detectApiUrl_p1_shape[of env net "trace st @ [?w]"] obtain new r where
      d: "detectApiUrl_p1 env net (trace st @ [?w]) = (trace st @ [?w] @ new, Inr r)"
      "list_all background new" by auto
    have "getApiUrlWithFallback_p1 env net st =
       (st\<lparr>cachedApiUrl := Some (?fb r), apiUrlChecked := True,
           trace := trace st @ ([?w] @ new)\<rparr>, Inr (?fb r))"
      using nc False d(1) by (auto simp: getApiUrlWithFallback_p1_def Let_def)
    moreover have "list_all background ([?w] @ new)" using d(2) w by simp
    ultimately show ?thesis using fb[of r] by blast
  next
    case True
    then obtain a where a: "getApiUrl_p1 env = Some a" "a \<noteq> []" by (auto simp: truthy_str_iff)
    from checkApiHealth_p1_shape[of net "Some a" 1 "trace st"] obtain new h where
      h: "checkApiHealth_p1 net (Some a) 1 (trace st) = (trace st @ new, Inr h)"
      "list_all background new" by blast
    show ?thesis
    proof (cases "success h")
      case s: True
      have "getApiUrlWithFallback_p1 env net st =
         (st\<lparr>cachedApiUrl := Some a, apiUrlChecked := True, trace := trace st @ new\<rparr>, Inr a)"
        using nc a h(1) s by (auto simp: getApiUrlWithFallback_p1_def Let_def)
      then show ?thesis using a(2) h(2) by blast
    next
      case s: False
      from detectApiUrl_p1_shape[of env net "trace st @ new @ [?w]"] obtain new' r where
        d: "detectApiUrl_p1 env net (trace st @ new @ [?w]) = (trace st @ new @ [?w] @ new', Inr r)"
        "list_all background new'" by auto
      have "getApiUrlWithFallback_p1 env net st =
         (st\<lparr>cachedApiUrl := Some (?fb r), apiUrlChecked := True,
             trace := trace st @ (new @ [?w] @ new')\<rparr>, Inr (?fb r))"
        using nc a h(1) s d(1) by (auto simp: getApiUrlWithFallback_p1_def Let_def)
      moreover have "list_all background (new @ [?w] @ new')" using d(2) h(2) w by simp
      ultimately show ?thesis using fb[of r] by blast
    qed
  qed
qed

lemma wakeUpServer_p1_given:
  assumes "u \<noteq> []"
  shows "\<exists>new b. wakeUpServer_p1 env net (Some u) st = (st\<lparr>trace := trace st @ new\<rparr>, Inr b) \<and>
     list_all background new \<and> length (filter is_request new) \<le> 3 \<and>
     (b \<longrightarrow> (\<exists>pre a. a \<le> 3 \<and> prefix (pre @ [Request (wake_config u a)]) new \<and>
                     ok_reply net (trace st @ pre) (wake_config u a))) \<and>
     ((\<forall>h c. \<not> ok_reply net h c) \<longrightarrow> \<not> b \<and> length (filter is_request new) = 3)"
proof -
  from wakeUp_loop_bounded[of 1 net u "trace st"] obtain new b where
    w: "wakeUp_loop net u 1 (trace st) = (trace st @ new, Inr b)" and
    p: "list_all background new" "length (filter is_request new) \<le> 3"
     "b \<longrightarrow> (\<exists>pre a. a \<le> 3 \<and> prefix (pre @ [Request (wake_config u a)]) new \<and>
                     ok_reply net (trace st @ pre) (wake_config u a))"
     "(\<forall>h c. \<not> ok_reply net h c) \<longrightarrow> \<not> b \<and> length (filter is_request new) = 3"
    by auto
  have "wakeUpServer_p1 env net (Some u) st = (st\<lparr>trace := trace st @ new\<rparr>, Inr b)"
    using assms w by (simp add: wakeUpServer_p1_def)
  with p show ?thesis by blast
qed

lemma wakeUpServer_p1_returns:
  "\<exists>st' b. wakeUpServer_p1 env net apiUrl st = (st', Inr b)"
proof (cases "truthy_str apiUrl")
  case True
  then obtain u where "apiUrl = Some u" "u \<noteq> []" by (auto simp: truthy_str_iff)
  then show ?thesis using wakeUpServer_p1_given[of u env net st] by blast
next
  case False
  from getApiUrlWithFallback_p1_shape[of env net st] obtain st1 u where
    g: "getApiUrlWithFallback_p1 env net st = (st1, Inr u)" by blast
  from wakeUp_loop_bounded[of 1 net u "trace st1"] obtain tr1 b where
    "wakeUp_loop net u 1 (trace st1) = (tr1, Inr b)" by auto
  then show ?thesis using False g by (simp add: wakeUpServer_p1_def)
qed

lemma down_never_ok: "\<not> ok_reply down_network h c"
  by (simp add: ok_reply_def down_network_def)

lemma wakeUpServer_healthy_example:
  "wakeUpServer_p1 dev_environment healthy_network (Some ''http://localhost:5000'') initial_state
   = (initial_state\<lparr>trace := [Request (wake_config ''http://localhost:5000'' 1), ConsoleLog [''Server is awake and responding'']]\<rparr>, Inr True)"
  by (simp add: wakeUpServer_p1_def wakeUp_loop_replied[where r="\<lparr>status = 200, data = JObj [(''status'', JStr ''ok'')]\<rparr>"] healthy_network_def data_ok_def initial_state_def)

text \<open>
  Claim C7. \<open>wakeUpServer\<close> always terminates with a boolean. Called with a URL it sends
  at most three health probes; the result is \<open>true\<close> only if one of these probes (attempt
  1, 2 or 3) was answered with an accepted status and a body whose status field is
  \<open>"ok"\<close>; if no probe is ever answered so, the result is \<open>false\<close> after exactly three
  probes, whatever the errors were.
\<close>

theorem wakeUpServer_bounded:
  "(\<exists>st' b. wakeUpServer_p1 env net apiUrl st = (st', Inr b)) \<and>
   (u \<noteq> [] \<longrightarrow>
     (\<exists>new b. wakeUpServer_p1 env net (Some u) st = (st\<lparr>trace := trace st @ new\<rparr>, Inr b) \<and>
        length (filter is_request new) \<le> 3 \<and>
        (b \<longrightarrow> (\<exists>pre a. a \<le> 3 \<and> prefix (pre @ [Request (wake_config u a)]) new \<and>
                        ok_reply net (trace st @ pre) (wake_config u a))) \<and>
        ((\<forall>h c. \<not> ok_reply net h c) \<longrightarrow> \<not> b \<and> length (filter is_request new) = 3)))"
  using wakeUpServer_p1_returns[of env net apiUrl st] wakeUpServer_p1_given[of u env net st]
  by blast

theorem wakeUpServer_bounded_witness:
  "''http://localhost:5000'' \<noteq> [] \<and> (\<forall>h c. \<not> ok_reply down_network h c) \<and>
   (\<exists>new. wakeUpServer_p1 dev_environment down_network (Some ''http://localhost:5000'')
             initial_state
            = (initial_state\<lparr>trace := new\<rparr>, Inr False) \<and>
          length (filter is_request new) = 3) \<and>
   wakeUpServer_p1 dev_environment healthy_network (Some ''http://localhost:5000'') initial_state
     = (initial_state\<lparr>trace := [Request (wake_config ''http://localhost:5000'' 1),
                                    ConsoleLog [''Server is awake and responding'']]\<rparr>,
        Inr True) \<and>
   (\<exists>pre a. a \<le> 3 \<and>
      prefix (pre @ [Request (wake_config ''http://localhost:5000'' a)])
        [Request (wake_config ''http://localhost:5000'' 1),
         ConsoleLog [''Server is awake and responding'']] \<and>
      ok_reply healthy_network (trace initial_state @ pre) (wake_config ''http://localhost:5000'' a))"
proof -
  let ?u = "''http://localhost:5000''"
  have down: "\<exists>new. wakeUpServer_p1 dev_environment down_network (Some ?u) initial_state
            = (initial_state\<lparr>trace := new\<rparr>, Inr False) \<and>
          length (filter is_request new) = 3"
    using wakeUpServer_bounded[of dev_environment down_network "Some ?u" initial_state ?u]
      down_never_ok
    by (auto simp: initial_state_def)
  from wakeUpServer_bounded[of dev_environment healthy_network "Some ?u" initial_state ?u]
  obtain new b where
    w: "wakeUpServer_p1 dev_environment healthy_network (Some ?u) initial_state
          = (initial_state\<lparr>trace := trace initial_state @ new\<rparr>, Inr b)"
    and ok: "b \<longrightarrow> (\<exists>pre a. a \<le> 3 \<and> prefix (pre @ [Request (wake_config ?u a)]) new \<and>
                     ok_reply healthy_network (trace initial_state @ pre) (wake_config ?u a))"
    by auto
  have "b" and "new = [Request (wake_config ?u 1), ConsoleLog [''Server is awake and responding'']]"
    using w wakeUpServer_healthy_example by (simp_all add: initial_state_def)
  with ok have "\<exists>pre a. a \<le> 3 \<and>
      prefix (pre @ [Request (wake_config ?u a)])
        [Request (wake_config ?u 1), ConsoleLog [''Server is awake and responding'']] \<and>
      ok_reply healthy_network (trace initial_state @ pre) (wake_config ?u a)"
    by simp
  with down down_never_ok wakeUpServer_healthy_example show ?thesis by simp
qed

section \<open>A call of the client in the auto-detecting variant\<close>

lemma retry_intercepted [simp]: "retry (intercepted cached c) = retry c"
  by (simp add: intercepted_def)

lemma dispatch_raw: "dispatch net v c tr = (tr1, Inl err) \<Longrightarrow> raw_error err"
  by (cases "net tr c") (auto simp: dispatch_def raw_error_def split: if_splits)

lemma retry_shapeI:
  "\<not> marked \<Longrightarrow> list_all background bg \<Longrightarrow> tail = [] \<or> (\<exists>c. tail = [Request c] \<and> retry c) \<Longrightarrow>
   rest = retry_announcement # bg @ tail \<Longrightarrow> retry_shape marked rest"
  unfolding retry_shape_def by blast

lemma failing_dispatch:
  assumes "\<forall>h c. \<exists>cd m. net h c = Failed cd m"
  shows "dispatch net v c tr \<noteq> (tr1, Inr r)"
proof -
  from assms obtain cd m where "net tr c = Failed cd m" by blast
  then show ?thesis by (simp add: dispatch_def)
qed

lemma unreachable_dispatch:
  assumes "unreachable net" and "dispatch net v c tr = (tr1, Inl err)"
  shows "network_class err"
proof -
  from assms(1) obtain cd m where "net tr c = Failed cd m"
    "cd = ''ERR_NETWORK'' \<or> cd = ''ERR_NAME_NOT_RESOLVED''"
    unfolding unreachable_def by blast
  then show ?thesis using assms(2)
    by (auto simp: dispatch_def network_class_def transport_error_def)
qed

lemma unreachable_failing: "unreachable net \<Longrightarrow> \<forall>h c. \<exists>cd m. net h c = Failed cd m"
  unfolding unreachable_def by blast

lemma send_once_p1_shape:
  "\<exists>out. send_once_p1 net c st =
       (st\<lparr>trace := trace st @ [Request (intercepted (cachedApiUrl st) c)]\<rparr>, out) \<and>
     ((\<exists>r. out = Inr r) \<or> (\<exists>err. raw_error err \<and> out = Inl (enhance_p1 err))) \<and>
     ((\<forall>h c. \<exists>cd m. net h c = Failed cd m) \<longrightarrow> (\<exists>e. out = Inl e))"
proof -
  let ?c = "intercepted (cachedApiUrl st) c"
  from dispatch_disj[of net default_validate ?c "trace st"] show ?thesis
  proof
    assume "\<exists>err. dispatch net default_validate ?c (trace st) = (trace st @ [Request ?c], Inl err)"
    then obtain err where
      d: "dispatch net default_validate ?c (trace st) = (trace st @ [Request ?c], Inl err)"
      by blast
    then show ?thesis using dispatch_raw[OF d]
      by (intro exI[of _ "Inl (enhance_p1 err)"]) (auto simp: send_once_p1_def)
  next
    assume "\<exists>r. dispatch net default_validate ?c (trace st) = (trace st @ [Request ?c], Inr r)"
    then obtain r where
      d: "dispatch net default_validate ?c (trace st) = (trace st @ [Request ?c], Inr r)" by blast
    have "\<not> (\<forall>h c. \<exists>cd m. net h c = Failed cd m)"
      using d failing_dispatch by blast
    then show ?thesis using d
      by (intro exI[of _ "Inr r"]) (simp add: send_once_p1_def)
  qed
qed

lemma request_p1_marked:
  "retry config0 \<Longrightarrow> request_p1 env net config0 st = send_once_p1 net config0 st"
  by (subst request_p1.simps)
    (simp add: send_once_p1_def intercepted_def Let_def split: prod.splits sum.splits)

lemma request_p1_resolved:
  assumes "dispatch net default_validate (intercepted (cachedApiUrl st) config0) (trace st)
             = (tr1, Inr resp)"
  shows "request_p1 env net config0 st = (st\<lparr>trace := tr1\<rparr>, Inr resp)"
  using assms by (subst request_p1.simps) (simp add: intercepted_def Let_def)

lemma request_p1_rejected:
  assumes "dispatch net default_validate (intercepted (cachedApiUrl st) config0) (trace st)
             = (tr1, Inl err)"
    and "\<not> network_class err \<or> retry config0"
  shows "request_p1 env net config0 st = (st\<lparr>trace := tr1\<rparr>, Inl (enhance_p1 err))"
  using assms
  by (subst request_p1.simps) (auto simp: intercepted_def Let_def network_class_def)

text \<open>The retry path, step by step.\<close>

lemma request_p1_retry_path:
  assumes d: "dispatch net default_validate (intercepted (cachedApiUrl st) config0) (trace st)
             = (tr1, Inl err)"
    and nc: "network_class err" and nr: "\<not> retry config0"
    and g: "getApiUrlWithFallback_p1 env net (log_event retry_announcement (st\<lparr>trace := tr1\<rparr>))
             = (st2, Inr apiUrl)"
    and w: "wakeUpServer_p1 env net (Some apiUrl) st2 = (st3, Inr woke)"
  shows "request_p1 env net config0 st =
     (if woke
      then request_p1 env net
             ((intercepted (cachedApiUrl st) config0)\<lparr>retry := True, baseURL := Some apiUrl\<rparr>)
             (log_event (ConsoleLog [''Server awakened, retrying request...'']) st3)
      else (case getApiUrlWithFallback_p1 env net
                  ((log_event (ConsoleWarn [''Wake-up failed, refreshing API URL...'']) st3)
                     \<lparr>cachedApiUrl := None, apiUrlChecked := False\<rparr>) of
              (st5, Inl retryError) \<Rightarrow> (st5, Inl (retry_rejection retryError))
            | (st5, Inr newApiUrl) \<Rightarrow>
                if newApiUrl \<noteq> apiUrl
                then request_p1 env net
                       ((intercepted (cachedApiUrl st) config0)
                          \<lparr>retry := True, baseURL := Some newApiUrl,
                           url := js_replace (url (intercepted (cachedApiUrl st) config0))
                                    newApiUrl newApiUrl\<rparr>)
                       st5
                else (st5, Inl (enhance_p1 err))))"
  using d nc nr g w
  by (subst request_p1.simps)
    (auto simp: intercepted_def Let_def network_class_def retry_announcement_def
       split: prod.splits sum.splits)

lemma request_p1_structure:
  "\<exists>st' out rest. request_p1 env net config0 st = (st', out) \<and>
     apiInstance st' = apiInstance st \<and>
     trace st' = trace st @ Request (intercepted (cachedApiUrl st) config0) # rest \<and>
     ((\<exists>r. out = Inr r) \<or> (\<exists>err. raw_error err \<and> out = Inl (enhance_p1 err))) \<and>
     ((\<forall>h c. \<exists>cd m. net h c = Failed cd m) \<longrightarrow> (\<exists>e. out = Inl e)) \<and>
     retry_shape (retry config0) rest \<and>
     (unreachable net \<and> \<not> retry config0 \<longrightarrow> rest \<noteq> []) \<and>
     (rest = [] \<longrightarrow>
        st' = st\<lparr>trace := trace st @ [Request (intercepted (cachedApiUrl st) config0)]\<rparr>)"
proof -
  let ?c = "intercepted (cachedApiUrl st) config0"
  let ?tr1 = "trace st @ [Request ?c]"
  from dispatch_disj[of net default_validate ?c "trace st"] show ?thesis
  proof
    assume "\<exists>r. dispatch net default_validate ?c (trace st) = (?tr1, Inr r)"
    then obtain r where d: "dispatch net default_validate ?c (trace st) = (?tr1, Inr r)" by blast
    have "request_p1 env net config0 st = (st\<lparr>trace := ?tr1\<rparr>, Inr r)"
      by (rule request_p1_resolved[OF d])
    moreover have "\<not> (\<forall>h c. \<exists>cd m. net h c = Failed cd m)"
      using d failing_dispatch by blast
    moreover have "\<not> unreachable net" using calculation(2) unreachable_failing by blast
    ultimately show ?thesis
      by (intro exI[of _ "st\<lparr>trace := ?tr1\<rparr>"] exI[of _ "Inr r"] exI[of _ "[]"] conjI)
        (simp_all add: retry_shape_def)
  next
    assume "\<exists>err. dispatch net default_validate ?c (trace st) = (?tr1, Inl err)"
    then obtain err where d: "dispatch net default_validate ?c (trace st) = (?tr1, Inl err)"
      by blast
    have raw: "raw_error err" by (rule dispatch_raw[OF d])
    show ?thesis
    proof (cases "\<not> network_class err \<or> retry config0")
      case True
      have "request_p1 env net config0 st = (st\<lparr>trace := ?tr1\<rparr>, Inl (enhance_p1 err))"
        by (rule request_p1_rejected[OF d True])
      moreover have "unreachable net \<Longrightarrow> retry config0"
        using True unreachable_dispatch[OF _ d] by blast
      ultimately show ?thesis
        using raw
        by (intro exI[of _ "st\<lparr>trace := ?tr1\<rparr>"] exI[of _ "Inl (enhance_p1 err)"] exI[of _ "[]"] conjI)
          (simp_all add: retry_shape_def, blast+)
    next
      case False
      then have nc: "network_class err" and nr: "\<not> retry config0" by auto
      let ?st1 = "log_event retry_announcement (st\<lparr>trace := ?tr1\<rparr>)"
      from getApiUrlWithFallback_p1_shape[of env net ?st1] obtain new1 apiUrl where
        g: "getApiUrlWithFallback_p1 env net ?st1 =
              (?st1\<lparr>cachedApiUrl := Some apiUrl, apiUrlChecked := True,
                    trace := trace ?st1 @ new1\<rparr>, Inr apiUrl)"
        and u: "apiUrl \<noteq> []" and b1: "list_all background new1" by blast
      let ?st2 = "?st1\<lparr>cachedApiUrl := Some apiUrl, apiUrlChecked := True,
                    trace := trace ?st1 @ new1\<rparr>"
      from wakeUpServer_p1_given[OF u, of env net ?st2] obtain new2 woke where
        w: "wakeUpServer_p1 env net (Some apiUrl) ?st2 = (?st2\<lparr>trace := trace ?st2 @ new2\<rparr>, Inr woke)"
        and b2: "list_all background new2" by blast
      let ?st3 = "?st2\<lparr>trace := trace ?st2 @ new2\<rparr>"
      note path = request_p1_retry_path[OF d nc nr g w]
      show ?thesis
      proof (cases woke)
        case True
        let ?c' = "?c\<lparr>retry := True, baseURL := Some apiUrl\<rparr>"
        let ?st4 = "log_event (ConsoleLog [''Server awakened, retrying request...'']) ?st3"
        from send_once_p1_shape[of net ?c' ?st4] obtain out where
          s: "send_once_p1 net ?c' ?st4 =
                (?st4\<lparr>trace := trace ?st4 @ [Request (intercepted (cachedApiUrl ?st4) ?c')]\<rparr>, out)"
          and o: "(\<exists>r. out = Inr r) \<or> (\<exists>err. raw_error err \<and> out = Inl (enhance_p1 err))"
            "(\<forall>h c. \<exists>cd m. net h c = Failed cd m) \<longrightarrow> (\<exists>e. out = Inl e)" by blast
        let ?st' = "?st4\<lparr>trace := trace ?st4 @ [Request (intercepted (cachedApiUrl ?st4) ?c')]\<rparr>"
        let ?bg = "new1 @ new2 @ [ConsoleLog [''Server awakened, retrying request...'']]"
        let ?tail = "[Request (intercepted (cachedApiUrl ?st4) ?c')]"
        have eq: "request_p1 env net config0 st = (?st', out)"
          using path True s by (simp add: request_p1_marked)
        have t: "trace ?st' = trace st @ Request ?c # (retry_announcement # ?bg @ ?tail)"
          by (simp add: log_event_def)
        have a: "apiInstance ?st' = apiInstance st" by (simp add: log_event_def)
        have sh: "retry_shape (retry config0) (retry_announcement # ?bg @ ?tail)"
          by (rule retry_shapeI[OF nr, of ?bg ?tail]) (use b1 b2 in simp_all)
        show ?thesis
        proof (intro exI conjI)
          show "request_p1 env net config0 st = (?st', out)" by (rule eq)
          show "apiInstance ?st' = apiInstance st" by (rule a)
          show "trace ?st' = trace st @ Request ?c # (retry_announcement # ?bg @ ?tail)" by (rule t)
          show "(\<exists>r. out = Inr r) \<or> (\<exists>err. raw_error err \<and> out = Inl (enhance_p1 err))" by (rule o(1))
          show "(\<forall>h c. \<exists>cd m. net h c = Failed cd m) \<longrightarrow> (\<exists>e. out = Inl e)" by (rule o(2))
          show "retry_shape (retry config0) (retry_announcement # ?bg @ ?tail)" by (rule sh)
          show "unreachable net \<and> \<not> retry config0 \<longrightarrow> retry_announcement # ?bg @ ?tail \<noteq> []" by simp
          show "retry_announcement # ?bg @ ?tail = [] \<longrightarrow> ?st' = st\<lparr>trace := trace st @ [Request ?c]\<rparr>" by simp
        qed
      next
        case nw: False
        let ?st4 = "(log_event (ConsoleWarn [''Wake-up failed, refreshing API URL...'']) ?st3)
                     \<lparr>cachedApiUrl := None, apiUrlChecked := False\<rparr>"
        from getApiUrlWithFallback_p1_shape[of env net ?st4] obtain new3 newApiUrl where
          g2: "getApiUrlWithFallback_p1 env net ?st4 =
              (?st4\<lparr>cachedApiUrl := Some newApiUrl, apiUrlChecked := True,
                    trace := trace ?st4 @ new3\<rparr>, Inr newApiUrl)"
          and b3: "list_all background new3" by blast
        let ?st5 = "?st4\<lparr>cachedApiUrl := Some newApiUrl, apiUrlChecked := True,
                    trace := trace ?st4 @ new3\<rparr>"
        let ?bg = "new1 @ new2 @ [ConsoleWarn [''Wake-up failed, refreshing API URL...'']] @ new3"
        have bg: "list_all background ?bg" using b1 b2 b3 by (simp add: retry_announcement_def)
        show ?thesis
        proof (cases "newApiUrl \<noteq> apiUrl")
          case True
          let ?c' = "?c\<lparr>retry := True, baseURL := Some newApiUrl,
                           url := js_replace (url ?c) newApiUrl newApiUrl\<rparr>"
          from send_once_p1_shape[of net ?c' ?st5] obtain out where
            s: "send_once_p1 net ?c' ?st5 =
                (?st5\<lparr>trace := trace ?st5 @ [Request (intercepted (cachedApiUrl ?st5) ?c')]\<rparr>, out)"
            and o: "(\<exists>r. out = Inr r) \<or> (\<exists>err. raw_error err \<and> out = Inl (enhance_p1 err))"
              "(\<forall>h c. \<exists>cd m. net h c = Failed cd m) \<longrightarrow> (\<exists>e. out = Inl e)" by blast
          let ?st' = "?st5\<lparr>trace := trace ?st5 @ [Request (intercepted (cachedApiUrl ?st5) ?c')]\<rparr>"
          let ?tail = "[Request (intercepted (cachedApiUrl ?st5) ?c')]"
          have eq: "request_p1 env net config0 st = (?st', out)"
            using path nw g2 True s by (simp add: request_p1_marked)
          have t: "trace ?st' = trace st @ Request ?c # (retry_announcement # ?bg @ ?tail)"
            by (simp add: log_event_def)
          have a: "apiInstance ?st' = apiInstance st" by (simp add: log_event_def)
          have sh: "retry_shape (retry config0) (retry_announcement # ?bg @ ?tail)"
            by (rule retry_shapeI[OF nr bg, of ?tail]) simp_all
          show ?thesis
        proof (intro exI conjI)
            show "request_p1 env net config0 st = (?st', out)" by (rule eq)
            show "apiInstance ?st' = apiInstance st" by (rule a)
            show "trace ?st' = trace st @ Request ?c # (retry_announcement # ?bg @ ?tail)" by (rule t)
            show "(\<exists>r. out = Inr r) \<or> (\<exists>err. raw_error err \<and> out = Inl (enhance_p1 err))" by (rule o(1))
            show "(\<forall>h c. \<exists>cd m. net h c = Failed cd m) \<longrightarrow> (\<exists>e. out = Inl e)" by (rule o(2))
            show "retry_shape (retry config0) (retry_announcement # ?bg @ ?tail)" by (rule sh)
            show "unreachable net \<and> \<not> retry config0 \<longrightarrow> retry_announcement # ?bg @ ?tail \<noteq> []" by simp
          show "retry_announcement # ?bg @ ?tail = [] \<longrightarrow> ?st' = st\<lparr>trace := trace st @ [Request ?c]\<rparr>" by simp
          qed
        next
          case False
          have eq: "request_p1 env net config0 st = (?st5, Inl (enhance_p1 err))"
            using path nw g2 False by simp
          have t: "trace ?st5 = trace st @ Request ?c # (retry_announcement # ?bg @ [])"
            by (simp add: log_event_def)
          have a: "apiInstance ?st5 = apiInstance st" by (simp add: log_event_def)
          have sh: "retry_shape (retry config0) (retry_announcement # ?bg @ [])"
            by (rule retry_shapeI[OF nr bg, of "[]"]) simp_all
          show ?thesis
          proof (intro exI conjI)
            show "request_p1 env net config0 st = (?st5, Inl (enhance_p1 err))" by (rule eq)
            show "apiInstance ?st5 = apiInstance st" by (rule a)
            show "trace ?st5 = trace st @ Request ?c # (retry_announcement # ?bg @ [])" by (rule t)
            show "(\<exists>r. Inl (enhance_p1 err) = Inr r) \<or> (\<exists>e. raw_error e \<and> Inl (enhance_p1 err) = Inl (enhance_p1 e))" using raw by blast
            show "(\<forall>h c. \<exists>cd m. net h c = Failed cd m) \<longrightarrow> (\<exists>e. Inl (enhance_p1 err) = Inl e)" by blast
            show "retry_shape (retry config0) (retry_announcement # ?bg @ [])" by (rule sh)
            show "unreachable net \<and> \<not> retry config0 \<longrightarrow> retry_announcement # ?bg @ [] \<noteq> []" by simp
            show "retry_announcement # ?bg @ [] = [] \<longrightarrow> ?st5 = st\<lparr>trace := trace st @ [Request ?c]\<rparr>" by simp
          qed
        qed
      qed
    qed
  qed
qed

lemma background_not_announcement: "background e \<Longrightarrow> e \<noteq> retry_announcement"
  by (cases e) (auto simp: retry_announcement_def)

lemma background_not_reissue: "background e \<Longrightarrow> \<not> is_reissue e"
  by (cases e) auto

lemma filter_background_announcement:
  "list_all background bg \<Longrightarrow> filter (\<lambda>e. e = retry_announcement) bg = []"
  by (induction bg) (auto dest: background_not_announcement)

lemma filter_background_reissue: "list_all background bg \<Longrightarrow> filter is_reissue bg = []"
  by (induction bg) (auto dest: background_not_reissue)

lemma request_not_announcement [simp]: "Request c \<noteq> retry_announcement"
  by (simp add: retry_announcement_def)

lemma announcement_not_reissue [simp]: "\<not> is_reissue retry_announcement"
  by (simp add: retry_announcement_def)

lemma retry_shape_counts:
  assumes "retry_shape marked rest"
  shows "retry_cycles rest \<le> 1" and "length (filter is_reissue rest) \<le> 1"
    and "marked \<Longrightarrow> rest = []" and "rest \<noteq> [] \<Longrightarrow> retry_cycles rest = 1"
  using assms
  by (auto simp: retry_shape_def retry_cycles_def filter_background_announcement
      filter_background_reissue)








section \<open>What a rejected call carries\<close>

lemma enhance_p0_classified:
  "enhance_p0 err = err\<lparr>userMessage := Some (classified_message_p0 err)\<rparr>"
  by (auto simp: enhance_p0_def classified_message_p0_def network_class_def is_timeout_def
      server_message_def split: option.splits)

lemma enhance_p1_classified:
  "enhance_p1 err = err\<lparr>userMessage := Some (classified_message_p1 err)\<rparr>"
  by (auto simp: enhance_p1_def classified_message_p1_def network_class_def
      server_message_def split: option.splits)

lemma request_p0_rejection:
  assumes "request_p0 net config0 st = (st', Inl e)"
  shows "\<exists>err. raw_error err \<and> e = enhance_p0 err"
proof -
  let ?c = "if truthy_str (cachedApiUrl st)
            then config0\<lparr>baseURL := Some (strip_trailing_slashes (the (cachedApiUrl st)))\<rparr>
            else config0"
  from dispatch_disj[of net default_validate ?c "trace st"] show ?thesis
  proof
    assume "\<exists>err. dispatch net default_validate ?c (trace st) = (trace st @ [Request ?c], Inl err)"
    then obtain err where
      d: "dispatch net default_validate ?c (trace st) = (trace st @ [Request ?c], Inl err)"
      by blast
    have "e = enhance_p0 err" using assms d by (simp add: request_p0_def Let_def)
    then show ?thesis using dispatch_raw[OF d] by blast
  next
    assume "\<exists>r. dispatch net default_validate ?c (trace st) = (trace st @ [Request ?c], Inr r)"
    then obtain r where
      d: "dispatch net default_validate ?c (trace st) = (trace st @ [Request ?c], Inr r)" by blast
    then show ?thesis using assms by (simp add: request_p0_def Let_def)
  qed
qed

lemma request_p1_rejection:
  assumes "request_p1 env net config0 st = (st', Inl e)"
  shows "\<exists>err. raw_error err \<and> e = enhance_p1 err"
  using request_p1_structure[of env net config0 st] assms by auto

lemma getApiInstance_p1_returns:
  "\<exists>st1 inst. getApiInstance_p1 env net st = (st1, Inr inst)"
proof (cases "apiInstance st")
  case None
  from getApiUrlWithFallback_p1_shape[of env net st] obtain st1 u where
    "getApiUrlWithFallback_p1 env net st = (st1, Inr u)" by blast
  then show ?thesis using None
    by (simp add: getApiInstance_p1_def createApiInstance_p1_def axios_create_def)
next
  case (Some inst)
  then show ?thesis by (simp add: getApiInstance_p1_def)
qed

text \<open>
  Claim C8, as amended. Every error that a call of the client rejects with, in either
  variant, is an error of the library with a \<open>userMessage\<close> attached, chosen by class: a
  connectivity message for a network or DNS failure; in the normalising variant the
  waking-up message for a timeout; for an error with an HTTP response the server's
  message when the body has a truthy one, else the error's own message; for anything else
  the error's own message or a generic text. The auto-detecting variant has no timeout
  class.
\<close>

theorem rejection_carries_userMessage:
  "(request_p0 net config0 st = (st', Inl e) \<longrightarrow>
      (\<exists>err. raw_error err \<and> e = err\<lparr>userMessage := Some (classified_message_p0 err)\<rparr>)) \<and>
   (api_p0 env net c st = (st', Inl e) \<longrightarrow>
      (\<exists>err. raw_error err \<and> e = err\<lparr>userMessage := Some (classified_message_p0 err)\<rparr>)) \<and>
   (request_p1 env net config0 st = (st', Inl e) \<longrightarrow>
      (\<exists>err. raw_error err \<and> e = err\<lparr>userMessage := Some (classified_message_p1 err)\<rparr>)) \<and>
   (api_p1 env net c st = (st', Inl e) \<longrightarrow>
      (\<exists>err. raw_error err \<and> e = err\<lparr>userMessage := Some (classified_message_p1 err)\<rparr>))"
proof (intro conjI impI)
  assume "request_p0 net config0 st = (st', Inl e)"
  from request_p0_rejection[OF this]
  show "\<exists>err. raw_error err \<and> e = err\<lparr>userMessage := Some (classified_message_p0 err)\<rparr>"
    by (simp add: enhance_p0_classified)
next
  assume a: "api_p0 env net c st = (st', Inl e)"
  obtain st1 inst where g: "getApiInstance_p0 env st = (st1, inst)" by fastforce
  from a g have "request_p0 net (call_config inst (Some 120000) c) st1 = (st', Inl e)"
    by (simp add: api_p0_def)
  from request_p0_rejection[OF this]
  show "\<exists>err. raw_error err \<and> e = err\<lparr>userMessage := Some (classified_message_p0 err)\<rparr>"
    by (simp add: enhance_p0_classified)
next
  assume "request_p1 env net config0 st = (st', Inl e)"
  from request_p1_rejection[OF this]
  show "\<exists>err. raw_error err \<and> e = err\<lparr>userMessage := Some (classified_message_p1 err)\<rparr>"
    by (simp add: enhance_p1_classified)
next
  assume a: "api_p1 env net c st = (st', Inl e)"
  from getApiInstance_p1_returns[of env net st] obtain st1 inst where
    g: "getApiInstance_p1 env net st = (st1, Inr inst)" by blast
  from a g have "request_p1 env net (call_config inst None c) st1 = (st', Inl e)"
    by (simp add: api_p1_def)
  from request_p1_rejection[OF this]
  show "\<exists>err. raw_error err \<and> e = err\<lparr>userMessage := Some (classified_message_p1 err)\<rparr>"
    by (simp add: enhance_p1_classified)
qed

lemma request_p1_timeout_example:
  "request_p1 dev_environment timeout_network example_request resolved_state =
     (resolved_state\<lparr>trace := [Request example_request]\<rparr>,
      Inl ((transport_error ''ECONNABORTED'' ''timeout of 30000ms exceeded'')
             \<lparr>userMessage := Some (JStr ''timeout of 30000ms exceeded'')\<rparr>))"
proof -
  have d: "dispatch timeout_network default_validate
             (intercepted (cachedApiUrl resolved_state) example_request) (trace resolved_state)
           = ([Request example_request],
              Inl (transport_error ''ECONNABORTED'' ''timeout of 30000ms exceeded''))"
    by (simp add: dispatch_def timeout_network_def intercepted_def resolved_state_def
        example_request_def)
  have n: "\<not> network_class (transport_error ''ECONNABORTED'' ''timeout of 30000ms exceeded'')"
    by (simp add: network_class_def transport_error_def)
  show ?thesis
    using request_p1_rejected[OF d disjI1[OF n], of dev_environment]
    by (simp add: enhance_p1_def transport_error_def)
qed

lemma request_p0_down_example:
  "request_p0 down_network example_request resolved_state =
     (resolved_state\<lparr>trace := [Request example_request]\<rparr>,
      Inl ((transport_error ''ERR_NETWORK'' ''Network Error'')
             \<lparr>userMessage := Some (JStr
                ''Cannot connect to server. Please check your connection and try again.'')\<rparr>))"
  by (simp add: request_p0_def dispatch_def down_network_def example_request_def
      resolved_state_def strip_trailing_slashes_def enhance_p0_def transport_error_def)

theorem rejection_carries_userMessage_witness:
  "request_p0 down_network example_request resolved_state =
     (resolved_state\<lparr>trace := [Request example_request]\<rparr>,
      Inl ((transport_error ''ERR_NETWORK'' ''Network Error'')
             \<lparr>userMessage := Some (JStr
                ''Cannot connect to server. Please check your connection and try again.'')\<rparr>)) \<and>
   (\<exists>err. raw_error err \<and>
      (transport_error ''ERR_NETWORK'' ''Network Error'')
         \<lparr>userMessage := Some (JStr
            ''Cannot connect to server. Please check your connection and try again.'')\<rparr>
       = err\<lparr>userMessage := Some (classified_message_p0 err)\<rparr>) \<and>
   request_p1 dev_environment timeout_network example_request resolved_state =
     (resolved_state\<lparr>trace := [Request example_request]\<rparr>,
      Inl ((transport_error ''ECONNABORTED'' ''timeout of 30000ms exceeded'')
             \<lparr>userMessage := Some (JStr ''timeout of 30000ms exceeded'')\<rparr>)) \<and>
   (\<exists>err. raw_error err \<and>
      (transport_error ''ECONNABORTED'' ''timeout of 30000ms exceeded'')
         \<lparr>userMessage := Some (JStr ''timeout of 30000ms exceeded'')\<rparr>
       = err\<lparr>userMessage := Some (classified_message_p1 err)\<rparr>)"
proof -
  let ?e0 = "(transport_error ''ERR_NETWORK'' ''Network Error'')
         \<lparr>userMessage := Some (JStr
            ''Cannot connect to server. Please check your connection and try again.'')\<rparr>"
  let ?e1 = "(transport_error ''ECONNABORTED'' ''timeout of 30000ms exceeded'')
         \<lparr>userMessage := Some (JStr ''timeout of 30000ms exceeded'')\<rparr>"
  let ?st' = "resolved_state\<lparr>trace := [Request example_request]\<rparr>"
  have "\<exists>err. raw_error err \<and> ?e0 = err\<lparr>userMessage := Some (classified_message_p0 err)\<rparr>"
    using rejection_carries_userMessage[of down_network example_request resolved_state ?st' ?e0]
      request_p0_down_example by blast
  moreover
  have "\<exists>err. raw_error err \<and> ?e1 = err\<lparr>userMessage := Some (classified_message_p1 err)\<rparr>"
    using rejection_carries_userMessage[where net = timeout_network and env = dev_environment
        and ?config0.0 = example_request and st = resolved_state and st' = "?st'" and e = "?e1"]
      request_p1_timeout_example by blast
  ultimately show ?thesis
    using request_p0_down_example request_p1_timeout_example by simp
qed

text \<open>
  Claim C8 as stated fails in the auto-detecting variant: a request that times out is
  rejected with the library's own text as \<open>userMessage\<close>, not with a message about the
  server waking up.
\<close>

theorem timeout_message_p1_counterexample:
  "request_p1 dev_environment timeout_network example_request resolved_state =
     (resolved_state\<lparr>trace := [Request example_request]\<rparr>,
      Inl ((transport_error ''ECONNABORTED'' ''timeout of 30000ms exceeded'')
             \<lparr>userMessage := Some (JStr ''timeout of 30000ms exceeded'')\<rparr>)) \<and>
   \<not> str_includes ''timeout of 30000ms exceeded'' ''waking up''"
  using request_p1_timeout_example by simp

section \<open>Runs of the module: the cache and the client\<close>

lemma retry_cycles_append [simp]: "retry_cycles (xs @ ys) = retry_cycles xs + retry_cycles ys"
  by (simp add: retry_cycles_def)

lemma retry_cycles_Nil [simp]: "retry_cycles [] = 0"
  by (simp add: retry_cycles_def)

lemma retry_cycles_background: "list_all background new \<Longrightarrow> retry_cycles new = 0"
  by (simp add: retry_cycles_def filter_background_announcement)

lemma background_not_create: "background e \<Longrightarrow> \<not> is_create e"
  by (cases e) auto

lemma filter_background_create: "list_all background new \<Longrightarrow> filter is_create new = []"
  by (induction new) (auto dest: background_not_create)

lemma keeps_cache_refl: "keeps_cache st st"
  by (simp add: keeps_cache_def)

lemma keeps_cache_trans: "keeps_cache a b \<Longrightarrow> keeps_cache b c \<Longrightarrow> keeps_cache a c"
  by (auto simp: keeps_cache_def)

lemma advances_refl: "advances st [] st"
  by (simp add: advances_def keeps_cache_refl split: option.splits)

lemma advances_trans:
  assumes "advances a n1 b" and "advances b n2 c"
  shows "advances a (n1 @ n2) c"
proof -
  have k: "retry_cycles (n1 @ n2) = 0 \<longrightarrow> keeps_cache a c"
    using assms keeps_cache_trans by (auto simp: advances_def)
  show ?thesis
    using assms k unfolding advances_def
    by (cases "apiInstance a"; cases "apiInstance b") auto
qed

text \<open>A change of the trace by background events only, with the cache kept.\<close>

lemma advances_background:
  assumes "list_all background new" and "trace st' = trace st @ new"
    and "apiInstance st' = apiInstance st" and "keeps_cache st st'"
  shows "advances st new st'"
  using assms
  by (auto simp: advances_def filter_background_create split: option.splits)

lemma getApiUrlWithFallback_p0_advances:
  "advances st [] (fst (getApiUrlWithFallback_p0 env st))"
  by (auto simp: getApiUrlWithFallback_p0_def advances_def keeps_cache_def Let_def
      split: option.splits)

lemma getApiUrlWithFallback_p1_advances:
  "\<exists>new. advances st new (fst (getApiUrlWithFallback_p1 env net st)) \<and> retry_cycles new = 0"
proof -
  from getApiUrlWithFallback_p1_shape[of env net st] obtain new u where
    g: "getApiUrlWithFallback_p1 env net st =
       (st\<lparr>cachedApiUrl := Some u, apiUrlChecked := True, trace := trace st @ new\<rparr>, Inr u)"
    and b: "list_all background new" by blast
  have k: "keeps_cache st (fst (getApiUrlWithFallback_p1 env net st))"
  proof (cases "truthy_str (cachedApiUrl st) \<and> apiUrlChecked st")
    case True
    then show ?thesis
      by (simp add: getApiUrlWithFallback_p1_def keeps_cache_def)
  next
    case False
    then show ?thesis by (auto simp: keeps_cache_def)
  qed
  have "advances st new (fst (getApiUrlWithFallback_p1 env net st))"
    by (rule advances_background[OF b _ _ k]) (simp_all add: g)
  then show ?thesis using retry_cycles_background[OF b] by blast
qed


lemma checkApiHealth_trace_advances:
  assumes "list_all background new"
  shows "advances st new (st\<lparr>trace := trace st @ new\<rparr>)"
  by (rule advances_background[OF assms]) (simp_all add: keeps_cache_def)

lemma wakeUpServer_p1_advances:
  "\<exists>new. advances st new (fst (wakeUpServer_p1 env net apiUrl st)) \<and> retry_cycles new = 0"
proof (cases "truthy_str apiUrl")
  case True
  then obtain u where u: "apiUrl = Some u" "u \<noteq> []" by (auto simp: truthy_str_iff)
  from wakeUpServer_p1_given[OF u(2), of env net st] obtain new b where
    w: "wakeUpServer_p1 env net (Some u) st = (st\<lparr>trace := trace st @ new\<rparr>, Inr b)"
    and bg: "list_all background new" by blast
  show ?thesis
    using checkApiHealth_trace_advances[OF bg, of st] retry_cycles_background[OF bg] w u
    by auto
next
  case False
  from getApiUrlWithFallback_p1_advances[of st env net] obtain new1 where
    a1: "advances st new1 (fst (getApiUrlWithFallback_p1 env net st))" "retry_cycles new1 = 0"
    by blast
  from getApiUrlWithFallback_p1_shape[of env net st] obtain st1 u where
    g: "getApiUrlWithFallback_p1 env net st = (st1, Inr u)" by blast
  from wakeUp_loop_bounded[of 1 net u "trace st1"] obtain new2 b where
    w: "wakeUp_loop net u 1 (trace st1) = (trace st1 @ new2, Inr b)"
    and bg: "list_all background new2" by auto
  have "fst (wakeUpServer_p1 env net apiUrl st) = st1\<lparr>trace := trace st1 @ new2\<rparr>"
    using False g w by (simp add: wakeUpServer_p1_def)
  then have "advances st (new1 @ new2) (fst (wakeUpServer_p1 env net apiUrl st))"
    using advances_trans[OF _ checkApiHealth_trace_advances[OF bg, of st1]] a1(1) g by simp
  then show ?thesis using a1(2) retry_cycles_background[OF bg] by auto
qed

lemma is_create_Create [simp]: "filter is_create [Create b] = [Create b]"
  by simp

lemma axios_create_advances:
  assumes "apiInstance st = None"
  shows "advances st [Create b]
           ((fst (axios_create b st))\<lparr>apiInstance := Some (snd (axios_create b st))\<rparr>)"
  using assms
  by (simp add: advances_def axios_create_def keeps_cache_def)

lemma getApiInstance_p0_advances:
  "\<exists>new. advances st new (fst (getApiInstance_p0 env st)) \<and> retry_cycles new = 0"
proof (cases "apiInstance st")
  case (Some inst)
  then show ?thesis using advances_refl[of st] by (auto simp: getApiInstance_p0_def)
next
  case None
  let ?st1 = "fst (getApiUrlWithFallback_p0 env st)"
  let ?u = "snd (getApiUrlWithFallback_p0 env st)"
  let ?b = "Some (if ?u \<noteq> [] then strip_trailing_slashes ?u else ?u)"
  have n1: "apiInstance ?st1 = None"
    using None by (simp add: getApiUrlWithFallback_p0_def Let_def)
  have "fst (getApiInstance_p0 env st) =
          (fst (axios_create ?b ?st1))\<lparr>apiInstance := Some (snd (axios_create ?b ?st1))\<rparr>"
    using None
    by (simp add: getApiInstance_p0_def createApiInstance_p0_def Let_def split: prod.splits)
  then have "advances st ([] @ [Create ?b]) (fst (getApiInstance_p0 env st))"
    using advances_trans[OF getApiUrlWithFallback_p0_advances axios_create_advances[OF n1]]
    by simp
  moreover have "retry_cycles ([] @ [Create ?b]) = 0"
    by (simp add: retry_cycles_def retry_announcement_def)
  ultimately show ?thesis by blast
qed

lemma getApiInstance_p1_advances:
  "\<exists>new. advances st new (fst (getApiInstance_p1 env net st)) \<and> retry_cycles new = 0"
proof (cases "apiInstance st")
  case (Some inst)
  then show ?thesis using advances_refl[of st] by (auto simp: getApiInstance_p1_def)
next
  case None
  from getApiUrlWithFallback_p1_advances[of st env net] obtain new1 where
    a1: "advances st new1 (fst (getApiUrlWithFallback_p1 env net st))" "retry_cycles new1 = 0"
    by blast
  from getApiUrlWithFallback_p1_shape[of env net st] obtain st1 u where
    g: "getApiUrlWithFallback_p1 env net st = (st1, Inr u)"
    and i1: "apiInstance st1 = apiInstance st" by force
  have n1: "apiInstance st1 = None"
    using i1 None by simp
  have "fst (getApiInstance_p1 env net st) =
          (fst (axios_create (Some u) st1))\<lparr>apiInstance := Some (snd (axios_create (Some u) st1))\<rparr>"
    using None g
    by (simp add: getApiInstance_p1_def createApiInstance_p1_def split: prod.splits)
  then have "advances st (new1 @ [Create (Some u)]) (fst (getApiInstance_p1 env net st))"
    using advances_trans[OF _ axios_create_advances[OF n1]] a1(1) g by simp
  moreover have "retry_cycles (new1 @ [Create (Some u)]) = 0"
    using a1(2) by (simp add: retry_cycles_def retry_announcement_def)
  ultimately show ?thesis by blast
qed

lemma request_p0_advances:
  "\<exists>c. advances st [Request c] (fst (request_p0 net config0 st))"
  by (auto simp: request_p0_def Let_def advances_def keeps_cache_def retry_cycles_def
      dispatch_def split: outcome.splits option.splits)

lemma retry_cycles_Request [simp]: "retry_cycles [Request c] = 0"
  by (simp add: retry_cycles_def)

lemma retry_shape_create: "retry_shape m rest \<Longrightarrow> filter is_create rest = []"
  by (auto simp: retry_shape_def filter_background_create retry_announcement_def)

lemma request_p1_advances:
  "\<exists>new. advances st new (fst (request_p1 env net config0 st))"
proof -
  let ?c = "intercepted (cachedApiUrl st) config0"
  from request_p1_structure[of env net config0 st] obtain st' out rest where
    r: "request_p1 env net config0 st = (st', out)" "apiInstance st' = apiInstance st"
    "trace st' = trace st @ Request ?c # rest" "retry_shape (retry config0) rest"
    "rest = [] \<longrightarrow> st' = st\<lparr>trace := trace st @ [Request ?c]\<rparr>" by blast
  have k: "retry_cycles (Request ?c # rest) = 0 \<longrightarrow> keeps_cache st st'"
  proof
    assume "retry_cycles (Request ?c # rest) = 0"
    then have "retry_cycles rest = 0" by (simp add: retry_cycles_def)
    then have "rest = []" using retry_shape_counts(4)[OF r(4)] by auto
    then show "keeps_cache st st'" using r(5) by (simp add: keeps_cache_def)
  qed
  have "advances st (Request ?c # rest) st'"
    using r(2,3) k retry_shape_create[OF r(4)]
    by (simp add: advances_def split: option.splits)
  then show ?thesis using r(1) by auto
qed

lemma api_p0_advances:
  "\<exists>new. advances st new (fst (api_p0 env net c st)) \<and> retry_cycles new = 0"
proof -
  from getApiInstance_p0_advances[of st env] obtain new1 where
    a1: "advances st new1 (fst (getApiInstance_p0 env st))" "retry_cycles new1 = 0" by blast
  obtain st1 inst where g: "getApiInstance_p0 env st = (st1, inst)" by fastforce
  from request_p0_advances[of st1 net "call_config inst (Some 120000) c"] obtain rq where
    a2: "advances st1 [Request rq] (fst (request_p0 net (call_config inst (Some 120000) c) st1))"
    by blast
  have "advances st (new1 @ [Request rq]) (fst (api_p0 env net c st))"
    using advances_trans[OF _ a2] a1(1) g by (simp add: api_p0_def)
  then show ?thesis using a1(2) by auto
qed

lemma api_p1_advances:
  "\<exists>new. advances st new (fst (api_p1 env net c st))"
proof -
  from getApiInstance_p1_advances[of st env net] obtain new1 where
    a1: "advances st new1 (fst (getApiInstance_p1 env net st))" by blast
  from getApiInstance_p1_returns[of env net st] obtain st1 inst where
    g: "getApiInstance_p1 env net st = (st1, Inr inst)" by blast
  from request_p1_advances[of st1 env net "call_config inst None c"] obtain new2 where
    a2: "advances st1 new2 (fst (request_p1 env net (call_config inst None c) st1))" by blast
  have "advances st (new1 @ new2) (fst (api_p1 env net c st))"
    using advances_trans[OF _ a2] a1 g by (simp add: api_p1_def)
  then show ?thesis by blast
qed

lemma healthCheck_p0_advances:
  "\<exists>new. advances st new (fst (healthCheck_p0 env net st)) \<and> retry_cycles new = 0"
proof -
  obtain st1 u where g: "getApiUrlWithFallback_p0 env st = (st1, u)" by fastforce
  from checkApiHealth_p0_shape[of net "Some u" 3 "trace st1"] obtain new r where
    h: "checkApiHealth_p0 net (Some u) 3 (trace st1) = (trace st1 @ new, Inr r)"
    and bg: "list_all background new" by blast
  have "fst (healthCheck_p0 env net st) = st1\<lparr>trace := trace st1 @ new\<rparr>"
    using g h by (simp add: healthCheck_p0_def)
  then have "advances st ([] @ new) (fst (healthCheck_p0 env net st))"
    using advances_trans[OF getApiUrlWithFallback_p0_advances checkApiHealth_trace_advances[OF bg], of st env]
      g by simp
  then show ?thesis using retry_cycles_background[OF bg] by auto
qed

lemma healthCheck_p1_advances:
  "\<exists>new. advances st new (fst (healthCheck_p1 env net st)) \<and> retry_cycles new = 0"
proof -
  from getApiUrlWithFallback_p1_advances[of st env net] obtain new1 where
    a1: "advances st new1 (fst (getApiUrlWithFallback_p1 env net st))" "retry_cycles new1 = 0"
    by blast
  from getApiUrlWithFallback_p1_shape[of env net st] obtain st1 u where
    g: "getApiUrlWithFallback_p1 env net st = (st1, Inr u)" by blast
  from checkApiHealth_p1_shape[of net "Some u" 3 "trace st1"] obtain new r where
    h: "checkApiHealth_p1 net (Some u) 3 (trace st1) = (trace st1 @ new, Inr r)"
    and bg: "list_all background new" by blast
  have "fst (healthCheck_p1 env net st) = st1\<lparr>trace := trace st1 @ new\<rparr>"
    using g h by (simp add: healthCheck_p1_def)
  then have "advances st (new1 @ new) (fst (healthCheck_p1 env net st))"
    using advances_trans[OF _ checkApiHealth_trace_advances[OF bg], of st new1 st1] a1(1) g
    by simp
  then show ?thesis using a1(2) retry_cycles_background[OF bg] by auto
qed

lemma step_p0_advances:
  "\<exists>new. advances st new (step_p0 env net c st) \<and> retry_cycles new = 0"
proof (cases c)
  case GetApiUrlWithFallback
  then show ?thesis using getApiUrlWithFallback_p0_advances[of st env] by auto
next
  case (WakeUpServer u)
  then show ?thesis using advances_refl[of st] by auto
next
  case GetApiInstance
  then show ?thesis using getApiInstance_p0_advances[of st env] by simp
next
  case (Api a)
  then show ?thesis using api_p0_advances[of st env net a] by simp
next
  case HealthCheck
  then show ?thesis using healthCheck_p0_advances[of st env net] by simp
qed

lemma step_p1_advances: "\<exists>new. advances st new (step_p1 env net c st)"
proof (cases c)
  case GetApiUrlWithFallback
  then show ?thesis using getApiUrlWithFallback_p1_advances[of st env net] by auto
next
  case (WakeUpServer u)
  then show ?thesis using wakeUpServer_p1_advances[of st env net u] by auto
next
  case GetApiInstance
  then show ?thesis using getApiInstance_p1_advances[of st env net] by auto
next
  case (Api a)
  then show ?thesis using api_p1_advances[of st env net a] by simp
next
  case HealthCheck
  then show ?thesis using healthCheck_p1_advances[of st env net] by auto
qed

lemma run_p0_advances:
  "\<exists>new. advances st new (run_in_turn_p0 env net cs st) \<and> retry_cycles new = 0"
proof (induction cs arbitrary: st)
  case Nil
  show ?case using advances_refl[of st] by auto
next
  case (Cons c cs)
  from step_p0_advances[of st env net c] obtain n1 where
    a1: "advances st n1 (step_p0 env net c st)" "retry_cycles n1 = 0" by blast
  from Cons.IH[of "step_p0 env net c st"] obtain n2 where
    a2: "advances (step_p0 env net c st) n2 (run_in_turn_p0 env net cs (step_p0 env net c st))"
    "retry_cycles n2 = 0" by blast
  have "advances st (n1 @ n2) (run_in_turn_p0 env net (c # cs) st)"
    using advances_trans[OF a1(1) a2(1)] by simp
  then show ?case using a1(2) a2(2) by auto
qed

lemma run_p1_advances: "\<exists>new. advances st new (run_in_turn_p1 env net cs st)"
proof (induction cs arbitrary: st)
  case Nil
  show ?case using advances_refl[of st] by auto
next
  case (Cons c cs)
  from step_p1_advances[of st env net c] obtain n1 where
    a1: "advances st n1 (step_p1 env net c st)" by blast
  from Cons.IH[of "step_p1 env net c st"] obtain n2 where
    a2: "advances (step_p1 env net c st) n2 (run_in_turn_p1 env net cs (step_p1 env net c st))" by blast
  have "advances st (n1 @ n2) (run_in_turn_p1 env net (c # cs) st)"
    using advances_trans[OF a1 a2] by simp
  then show ?case by blast
qed

lemma getApiInstance_p0_sets:
  "apiInstance (fst (getApiInstance_p0 env st)) = Some (snd (getApiInstance_p0 env st))"
  by (auto simp: getApiInstance_p0_def split: option.splits prod.splits)

lemma getApiInstance_p1_sets:
  "\<exists>st' inst. getApiInstance_p1 env net st = (st', Inr inst) \<and> apiInstance st' = Some inst"
proof (cases "apiInstance st")
  case None
  from getApiUrlWithFallback_p1_shape[of env net st] obtain st1 u where
    "getApiUrlWithFallback_p1 env net st = (st1, Inr u)" by blast
  then show ?thesis using None
    by (simp add: getApiInstance_p1_def createApiInstance_p1_def axios_create_def)
next
  case (Some inst)
  then show ?thesis by (simp add: getApiInstance_p1_def)
qed

lemma advances_creates:
  assumes "advances initial_state new st'"
  shows "length (filter is_create (trace st')) \<le> 1"
  using assms by (auto simp: advances_def initial_state_def)

lemma advances_instance:
  "advances st new st' \<Longrightarrow> apiInstance st = Some inst \<Longrightarrow> apiInstance st' = Some inst"
  by (simp add: advances_def)

text \<open>
  Claim C9, as amended. Provided the module's calls do not overlap (each has settled before
  the next one starts): once a base URL is resolved and cached (the flag set and the cached
  value truthy), \<open>getApiUrlWithFallback\<close> returns it and leaves the state, the trace
  included, as it is, so nothing is resolved again; no run of such calls changes it in the
  normalising variant, and in the auto-detecting variant none changes it unless a retry
  cycle is announced on the way. \<open>getApiInstance\<close> stores the client it returns; once a
  client is stored every later call returns that same client and no run replaces it, and a
  run from the initial state constructs at most one client.
\<close>

theorem cache_reused_and_client_singleton:
  "(truthy_str (cachedApiUrl st) \<and> apiUrlChecked st \<longrightarrow>
      getApiUrlWithFallback_p0 env st = (st, the (cachedApiUrl st)) \<and>
      getApiUrlWithFallback_p1 env net st = (st, Inr (the (cachedApiUrl st)))) \<and>
   keeps_cache st (run_in_turn_p0 env net calls st) \<and>
   (retry_cycles (trace (run_in_turn_p1 env net calls st)) = retry_cycles (trace st) \<longrightarrow>
      keeps_cache st (run_in_turn_p1 env net calls st)) \<and>
   apiInstance (fst (getApiInstance_p0 env st)) = Some (snd (getApiInstance_p0 env st)) \<and>
   (\<exists>st' inst. getApiInstance_p1 env net st = (st', Inr inst) \<and> apiInstance st' = Some inst) \<and>
   (apiInstance st = Some inst \<longrightarrow>
      getApiInstance_p0 env st = (st, inst) \<and>
      getApiInstance_p1 env net st = (st, Inr inst) \<and>
      apiInstance (run_in_turn_p0 env net calls st) = Some inst \<and>
      apiInstance (run_in_turn_p1 env net calls st) = Some inst) \<and>
   length (filter is_create (trace (run_in_turn_p0 env net calls initial_state))) \<le> 1 \<and>
   length (filter is_create (trace (run_in_turn_p1 env net calls initial_state))) \<le> 1"
proof -
  from run_p0_advances[of st env net calls] obtain n0 where
    a0: "advances st n0 (run_in_turn_p0 env net calls st)" "retry_cycles n0 = 0" by blast
  from run_p1_advances[of st env net calls] obtain n1 where
    a1: "advances st n1 (run_in_turn_p1 env net calls st)" by blast
  from run_p0_advances[of initial_state env net calls] obtain m0 where
    b0: "advances initial_state m0 (run_in_turn_p0 env net calls initial_state)" by blast
  from run_p1_advances[of initial_state env net calls] obtain m1 where
    b1: "advances initial_state m1 (run_in_turn_p1 env net calls initial_state)" by blast
  have 1: "truthy_str (cachedApiUrl st) \<and> apiUrlChecked st \<longrightarrow>
      getApiUrlWithFallback_p0 env st = (st, the (cachedApiUrl st)) \<and>
      getApiUrlWithFallback_p1 env net st = (st, Inr (the (cachedApiUrl st)))"
    by (simp add: getApiUrlWithFallback_p0_def getApiUrlWithFallback_p1_def)
  have 2: "keeps_cache st (run_in_turn_p0 env net calls st)"
    using a0 by (simp add: advances_def)
  have 3: "retry_cycles (trace (run_in_turn_p1 env net calls st)) = retry_cycles (trace st) \<longrightarrow>
      keeps_cache st (run_in_turn_p1 env net calls st)"
    using a1 by (simp add: advances_def)
  have 4: "apiInstance st = Some inst \<longrightarrow>
      getApiInstance_p0 env st = (st, inst) \<and>
      getApiInstance_p1 env net st = (st, Inr inst) \<and>
      apiInstance (run_in_turn_p0 env net calls st) = Some inst \<and>
      apiInstance (run_in_turn_p1 env net calls st) = Some inst"
    using advances_instance[OF a0(1)] advances_instance[OF a1]
    by (simp add: getApiInstance_p0_def getApiInstance_p1_def)
  show ?thesis
    using 1 2 3 4 getApiInstance_p0_sets[of env st] getApiInstance_p1_sets[of env net st]
      advances_creates[OF b0] advances_creates[OF b1]
    by blast
qed

lemma ready_run_p1:
  "run_in_turn_p1 dev_environment down_network [GetApiUrlWithFallback, GetApiInstance] ready_state
     = ready_state"
  by (simp add: getApiUrlWithFallback_p1_def getApiInstance_p1_def ready_state_def)

theorem cache_reused_and_client_singleton_witness:
  "truthy_str (cachedApiUrl ready_state) \<and> apiUrlChecked ready_state \<and>
   retry_cycles (trace (run_in_turn_p1 dev_environment down_network
                    [GetApiUrlWithFallback, GetApiInstance] ready_state))
     = retry_cycles (trace ready_state) \<and>
   apiInstance ready_state = Some (the (apiInstance ready_state)) \<and>
   getApiUrlWithFallback_p0 dev_environment ready_state = (ready_state, ''http://localhost:5000'') \<and>
   getApiUrlWithFallback_p1 dev_environment down_network ready_state
     = (ready_state, Inr ''http://localhost:5000'') \<and>
   keeps_cache ready_state
     (run_in_turn_p1 dev_environment down_network [GetApiUrlWithFallback, GetApiInstance] ready_state) \<and>
   getApiInstance_p1 dev_environment down_network ready_state
     = (ready_state, Inr (the (apiInstance ready_state)))"
proof -
  have h: "truthy_str (cachedApiUrl ready_state)" "apiUrlChecked ready_state"
    "apiInstance ready_state = Some (the (apiInstance ready_state))"
    "the (cachedApiUrl ready_state) = ''http://localhost:5000''"
    by (simp_all add: ready_state_def)
  from cache_reused_and_client_singleton[of ready_state dev_environment down_network
      "[GetApiUrlWithFallback, GetApiInstance]" "the (apiInstance ready_state)"]
  show ?thesis using h ready_run_p1 by auto
qed

section \<open>Overlapping calls\<close>

text \<open>A call that is started and run to its settlement with nothing in between is the
  function of the earlier sections.\<close>

lemma finish_Suspended: "finish (Suspended g) st = (case g st of (st1, r) \<Rightarrow> finish r st1)"
  by (simp split: prod.splits)

lemma await_progress_Suspended:
  "await_progress (Suspended g) k =
     Suspended (\<lambda>st. case g st of (st1, r) \<Rightarrow> (st1, await_progress r k))"
  by (simp add: map_prod_def)

lemma await_call_eq:
  "await_call g k st = (case g st of (st1, r) \<Rightarrow> (st1, await_progress r k))"
  by (simp add: await_call_def map_prod_def)

lemma finish_await_progress:
  "finish (await_progress r k) st = (case finish r st of (st1, v) \<Rightarrow> complete (k v) st1)"
proof (induction r arbitrary: st)
  case (Settled v)
  show ?case by (simp add: complete_def split: prod.splits)
next
  case (Suspended g)
  obtain s1 r where g: "g st = (s1, r)" by fastforce
  then have "(s1, r) \<in> range g" by (metis rangeI)
  moreover have "r \<in> Basic_BNFs.snds (s1, r)" by simp
  ultimately have "finish (await_progress r k) s1 =
      (case finish r s1 of (st1, v) \<Rightarrow> complete (k v) st1)"
    by (rule Suspended)
  with g show ?case
    by (simp add: finish_Suspended await_progress_Suspended del: await_progress.simps finish.simps)
qed

lemma complete_await_call:
  "complete (await_call g k) st = (case complete g st of (st1, v) \<Rightarrow> complete (k v) st1)"
  by (simp add: complete_def await_call_eq finish_await_progress split: prod.splits)

lemma complete_settle [simp]: "complete (settle v) st = (st, v)"
  by (simp add: complete_def settle_def)

lemma complete_axios_get_async:
  "complete (axios_get_async net u t v hs) st =
     (case axios_get net u t v hs (trace st) of (tr1, out) \<Rightarrow> (st\<lparr>trace := tr1\<rparr>, out))"
  by (simp add: complete_def axios_get_async_def finish_Suspended settle_def split: prod.splits)

lemma complete_sleep_async:
  "complete (sleep_async d) st = (st\<lparr>trace := trace st @ [Sleep d]\<rparr>, ())"
  by (simp add: complete_def sleep_async_def finish_Suspended settle_def)

lemma complete_lambda_settled [simp]:
  "complete (\<lambda>s. (f s, Settled (v s))) st = (f st, v st)"
  by (simp add: complete_def)

lemma complete_case_settled [simp]:
  "complete (\<lambda>s. case g s of (s1, x) \<Rightarrow> (s1, Settled (h x))) st =
     (case g st of (s1, x) \<Rightarrow> (s1, h x))"
  by (simp add: complete_def split: prod.splits)

lemma complete_createApiInstance_async_p0:
  "complete (createApiInstance_async_p0 env) st = createApiInstance_p0 env st"
proof -
  have "complete (getApiUrlWithFallback_async_p0 env) s = getApiUrlWithFallback_p0 env s" for s
    by (simp add: complete_def getApiUrlWithFallback_async_p0_def split: prod.splits)
  then show ?thesis
    unfolding createApiInstance_async_p0_def createApiInstance_p0_def complete_await_call
    by (simp add: Let_def split: prod.splits)
qed

lemma complete_getApiInstance_async_p0:
  "complete (getApiInstance_async_p0 env) st = getApiInstance_p0 env st"
proof (cases "apiInstance st")
  case None
  have "getApiInstance_async_p0 env st =
      await_call (createApiInstance_async_p0 env)
          (\<lambda>inst st1. (st1\<lparr>apiInstance := Some inst\<rparr>, Settled inst)) st"
    using None by (simp add: getApiInstance_async_p0_def)
  then have "complete (getApiInstance_async_p0 env) st =
      complete (await_call (createApiInstance_async_p0 env)
          (\<lambda>inst st1. (st1\<lparr>apiInstance := Some inst\<rparr>, Settled inst))) st"
    by (simp add: complete_def)
  then show ?thesis using None
    by (simp add: complete_await_call complete_createApiInstance_async_p0 getApiInstance_p0_def)
next
  case (Some inst)
  then show ?thesis
    by (simp add: complete_def getApiInstance_async_p0_def getApiInstance_p0_def)
qed

lemma lift_trace_id [simp]: "st\<lparr>trace := trace st\<rparr> = st"
  by simp

lemma complete_checkApiHealth_async_loop_p1:
  "complete (checkApiHealth_async_loop_p1 net u retries i) st =
     (case checkApiHealth_loop_p1 net u retries i (trace st) of
        (tr1, r) \<Rightarrow> (st\<lparr>trace := tr1\<rparr>, r))"
proof (induction "nat (retries - i)" arbitrary: i st)
  case 0
  then have "\<not> i < retries" by simp
  then show ?case
    by (subst checkApiHealth_async_loop_p1.simps, subst checkApiHealth_loop_p1.simps) simp
next
  case (Suc n)
  then have lt: "i < retries" and n: "n = nat (retries - (i + 1))" by auto
  note ih = Suc.hyps(1)[OF n]
  obtain tr1 out where g:
    "axios_get net (template_str u @ ''/api/health'') 5000 (\<lambda>s. s < 500) [] (trace st) = (tr1, out)"
    by fastforce
  show ?case
    apply (subst checkApiHealth_async_loop_p1.simps)
    apply (subst checkApiHealth_loop_p1.simps)
    using lt g
    by (cases out)
      (simp_all add: complete_await_call complete_axios_get_async complete_sleep_async ih)
qed

lemma complete_checkApiHealth_async_p1:
  "complete (checkApiHealth_async_p1 net u retries) st =
     (case checkApiHealth_p1 net u retries (trace st) of (tr1, r) \<Rightarrow> (st\<lparr>trace := tr1\<rparr>, r))"
  by (simp add: checkApiHealth_async_p1_def checkApiHealth_p1_def
      complete_checkApiHealth_async_loop_p1)

lemma complete_detect_candidates_async:
  "complete (detect_candidates_async net us) st =
     (case detect_candidates net us (trace st) of (tr1, r) \<Rightarrow> (st\<lparr>trace := tr1\<rparr>, r))"
proof (induction us arbitrary: st)
  case Nil
  show ?case by (simp add: log_event_def)
next
  case (Cons u us)
  obtain tr1 out where g: "checkApiHealth_p1 net (Some u) 2 (trace st) = (tr1, out)"
    by fastforce
  show ?case
    using g Cons
    by (cases out)
      (simp_all add: complete_await_call complete_checkApiHealth_async_p1 log_event_def)
qed

lemma complete_detectApiUrl_async_p1:
  "complete (detectApiUrl_async_p1 env net) st =
     (case detectApiUrl_p1 env net (trace st) of (tr1, r) \<Rightarrow> (st\<lparr>trace := tr1\<rparr>, r))"
proof (cases "truthy_str (VITE_API_URL env)")
  case False
  then show ?thesis
    by (simp add: detectApiUrl_async_p1_def detectApiUrl_p1_def complete_detect_candidates_async)
next
  case True
  obtain tr1 out where g: "checkApiHealth_p1 net (VITE_API_URL env) 2 (trace st) = (tr1, out)"
    by fastforce
  show ?thesis
    using True g
    by (cases out)
      (simp_all add: detectApiUrl_async_p1_def detectApiUrl_p1_def complete_await_call
        complete_checkApiHealth_async_p1 complete_detect_candidates_async)
qed

lemma complete_detect_and_cache_async_p1:
  "complete (detect_and_cache_async_p1 env net) st =
     (case detectApiUrl_p1 env net
             (trace st @ [ConsoleWarn [''API URL not available, attempting auto-detection...'']]) of
        (tr2, Inl err) \<Rightarrow> (st\<lparr>trace := tr2\<rparr>, Inl err)
      | (tr2, Inr detected) \<Rightarrow>
          (let apiUrl2 =
             (if \<not> truthy_str detected
              then (if truthy_str (VITE_API_URL env) then the (VITE_API_URL env)
                    else ''http://localhost:5000'')
              else the detected)
           in (st\<lparr>cachedApiUrl := Some apiUrl2, apiUrlChecked := True, trace := tr2\<rparr>,
               Inr apiUrl2)))"
proof -
  let ?w = "ConsoleWarn [''API URL not available, attempting auto-detection...'']"
  obtain tr2 out where d: "detectApiUrl_p1 env net (trace st @ [?w]) = (tr2, out)" by fastforce
  have "complete (detect_and_cache_async_p1 env net) st =
      complete (await_call (detectApiUrl_async_p1 env net)
       (\<lambda>out. case out of
          Inl err \<Rightarrow> settle (Inl err)
        | Inr detected \<Rightarrow>
            (\<lambda>st2.
               (let apiUrl2 =
                  (if \<not> truthy_str detected
                   then (if truthy_str (VITE_API_URL env) then the (VITE_API_URL env)
                         else ''http://localhost:5000'')
                   else the detected)
                in (st2\<lparr>cachedApiUrl := Some apiUrl2, apiUrlChecked := True\<rparr>,
                    Settled (Inr apiUrl2)))))) (log_event ?w st)"
    by (simp add: complete_def detect_and_cache_async_p1_def)
  then show ?thesis using d
    by (cases out)
      (simp_all add: complete_await_call complete_detectApiUrl_async_p1 log_event_def Let_def)
qed

lemma complete_getApiUrlWithFallback_async_p1:
  "complete (getApiUrlWithFallback_async_p1 env net) st = getApiUrlWithFallback_p1 env net st"
proof (cases "truthy_str (cachedApiUrl st) \<and> apiUrlChecked st")
  case True
  then show ?thesis
    by (simp add: complete_def getApiUrlWithFallback_async_p1_def getApiUrlWithFallback_p1_def)
next
  case nc: False
  show ?thesis
  proof (cases "truthy_str (getApiUrl_p1 env)")
    case False
    have "getApiUrlWithFallback_async_p1 env net st = detect_and_cache_async_p1 env net st"
      using nc False by (auto simp: getApiUrlWithFallback_async_p1_def Let_def)
    then have "complete (getApiUrlWithFallback_async_p1 env net) st =
        complete (detect_and_cache_async_p1 env net) st"
      by (simp add: complete_def)
    then show ?thesis using nc False
      by (auto simp: complete_detect_and_cache_async_p1 getApiUrlWithFallback_p1_def Let_def
          split: prod.splits sum.splits)
  next
    case True
    obtain tr1 out where h: "checkApiHealth_p1 net (getApiUrl_p1 env) 1 (trace st) = (tr1, out)"
      by fastforce
    have "getApiUrlWithFallback_async_p1 env net st =
        await_call (checkApiHealth_async_p1 net (getApiUrl_p1 env) 1)
                   (\<lambda>out. case out of
                      Inl err \<Rightarrow> settle (Inl err)
                    | Inr health \<Rightarrow>
                        if \<not> success health then detect_and_cache_async_p1 env net
                        else (\<lambda>st1. (st1\<lparr>cachedApiUrl := getApiUrl_p1 env, apiUrlChecked := True\<rparr>,
                                     Settled (Inr (the (getApiUrl_p1 env)))))) st"
      using nc True by (auto simp: getApiUrlWithFallback_async_p1_def Let_def)
    then have "complete (getApiUrlWithFallback_async_p1 env net) st =
        complete (await_call (checkApiHealth_async_p1 net (getApiUrl_p1 env) 1)
                   (\<lambda>out. case out of
                      Inl err \<Rightarrow> settle (Inl err)
                    | Inr health \<Rightarrow>
                        if \<not> success health then detect_and_cache_async_p1 env net
                        else (\<lambda>st1. (st1\<lparr>cachedApiUrl := getApiUrl_p1 env, apiUrlChecked := True\<rparr>,
                                     Settled (Inr (the (getApiUrl_p1 env))))))) st"
      by (simp add: complete_def)
    then show ?thesis using nc True h
      by (cases out)
        (auto simp: complete_await_call complete_checkApiHealth_async_p1
          complete_detect_and_cache_async_p1 getApiUrlWithFallback_p1_def Let_def
          split: prod.splits sum.splits)
  qed
qed

lemma complete_createApiInstance_async_p1:
  "complete (createApiInstance_async_p1 env net) st = createApiInstance_p1 env net st"
proof -
  obtain st1 out where g: "getApiUrlWithFallback_p1 env net st = (st1, out)" by fastforce
  show ?thesis
    unfolding createApiInstance_async_p1_def createApiInstance_p1_def complete_await_call
    using g by (cases out) (simp_all add: complete_getApiUrlWithFallback_async_p1 split: prod.splits)
qed

lemma complete_getApiInstance_async_p1:
  "complete (getApiInstance_async_p1 env net) st = getApiInstance_p1 env net st"
proof (cases "apiInstance st")
  case None
  obtain st1 out where g: "createApiInstance_p1 env net st = (st1, out)" by fastforce
  have "getApiInstance_async_p1 env net st =
      await_call (createApiInstance_async_p1 env net)
            (\<lambda>out. case out of
               Inl err \<Rightarrow> settle (Inl err)
             | Inr inst \<Rightarrow> (\<lambda>st1. (st1\<lparr>apiInstance := Some inst\<rparr>, Settled (Inr inst)))) st"
    using None by (simp add: getApiInstance_async_p1_def)
  then have "complete (getApiInstance_async_p1 env net) st =
      complete (await_call (createApiInstance_async_p1 env net)
            (\<lambda>out. case out of
               Inl err \<Rightarrow> settle (Inl err)
             | Inr inst \<Rightarrow> (\<lambda>st1. (st1\<lparr>apiInstance := Some inst\<rparr>, Settled (Inr inst))))) st"
    by (simp add: complete_def)
  then show ?thesis using None g
    by (cases out)
      (simp_all add: complete_await_call complete_createApiInstance_async_p1 getApiInstance_p1_def)
next
  case (Some inst)
  then show ?thesis
    by (simp add: complete_def getApiInstance_async_p1_def getApiInstance_p1_def)
qed

text \<open>
  Claim C9 as stated fails when calls overlap. Two calls of \<open>getApiInstance\<close> in a row on
  the initial state both find \<open>apiInstance\<close> empty before either has assigned it: two
  clients are constructed, the first caller holds the client with identity 0, and the module
  keeps the one with identity 1.
\<close>

theorem overlapping_first_calls_two_clients_counterexample:
  "overlapped (getApiInstance_async_p0 dev_environment) (getApiInstance_async_p0 dev_environment)
     [True, False, True, False] initial_state =
   (\<lparr>cachedApiUrl = Some ''http://localhost:5000'', apiUrlChecked = True,
     apiInstance = Some \<lparr>instance_id = 1, default_baseURL = Some ''http://localhost:5000'',
                         default_timeout = 30000,
                         default_headers = [(''Content-Type'', ''application/json'')]\<rparr>,
     trace = [Create (Some ''http://localhost:5000''), Create (Some ''http://localhost:5000'')]\<rparr>,
    Settled \<lparr>instance_id = 0, default_baseURL = Some ''http://localhost:5000'',
             default_timeout = 30000,
             default_headers = [(''Content-Type'', ''application/json'')]\<rparr>,
    Settled \<lparr>instance_id = 1, default_baseURL = Some ''http://localhost:5000'',
             default_timeout = 30000,
             default_headers = [(''Content-Type'', ''application/json'')]\<rparr>)"
  by (simp add: overlapped_def getApiInstance_async_p0_def createApiInstance_async_p0_def
      getApiUrlWithFallback_async_p0_def getApiUrlWithFallback_p0_def getApiUrl_p0_def
      await_call_eq await_progress_Suspended axios_create_def initial_state_def
      dev_environment_def strip_trailing_slashes_def Let_def
      del: await_progress.simps(2))

text \<open>The same happens in the auto-detecting variant; and there a resolution that was
  started before another one settled assigns the cache after it, without any retry
  cycle.\<close>

lemma overlapping_getApiInstance_p1:
  "overlapped (getApiInstance_async_p1 dev_environment down_network)
     (getApiInstance_async_p1 dev_environment down_network)
     [True, False, True, False] resolved_state =
   (resolved_state
      \<lparr>apiInstance := Some \<lparr>instance_id = 1, default_baseURL = Some ''http://localhost:5000'',
                         default_timeout = 30000,
                         default_headers = [(''Content-Type'', ''application/json'')]\<rparr>,
       trace := [Create (Some ''http://localhost:5000''), Create (Some ''http://localhost:5000'')]\<rparr>,
    Settled (Inr \<lparr>instance_id = 0, default_baseURL = Some ''http://localhost:5000'',
             default_timeout = 30000,
             default_headers = [(''Content-Type'', ''application/json'')]\<rparr>),
    Settled (Inr \<lparr>instance_id = 1, default_baseURL = Some ''http://localhost:5000'',
             default_timeout = 30000,
             default_headers = [(''Content-Type'', ''application/json'')]\<rparr>))"
  by (simp add: overlapped_def getApiInstance_async_p1_def createApiInstance_async_p1_def
      getApiUrlWithFallback_async_p1_def settle_def
      await_call_eq await_progress_Suspended axios_create_def resolved_state_def
      del: await_progress.simps(2))

lemma first_resolution_settles:
  "fst (snd overlapping_resolutions)
     = Settled (Inr ''https://filebackend-production.up.railway.app'') \<and>
   cachedApiUrl (fst overlapping_resolutions)
     = Some ''https://filebackend-production.up.railway.app'' \<and>
   apiUrlChecked (fst overlapping_resolutions)"
  unfolding overlapping_resolutions_def
  by (simp add: overlapped_def getApiUrlWithFallback_async_p1_def detect_and_cache_async_p1_def
      detectApiUrl_async_p1_def possibleUrls_def checkApiHealth_async_p1_def
      checkApiHealth_async_loop_p1.simps axios_get_async_def axios_get_def dispatch_def
      getApiUrl_p1_def hosted_environment_def answers_once_network_def
      settle_def log_event_def data_ok_def
      await_call_eq await_progress_Suspended initial_state_def Let_def
      del: await_progress.simps(2))


lemma late_resolution_overwrites:
  "snd (finish (snd (snd overlapping_resolutions)) (fst overlapping_resolutions))
     = Inr ''http://localhost:5000'' \<and>
   cachedApiUrl (fst (finish (snd (snd overlapping_resolutions)) (fst overlapping_resolutions)))
     = Some ''http://localhost:5000'' \<and>
   retry_cycles (trace (fst (finish (snd (snd overlapping_resolutions))
                              (fst overlapping_resolutions)))) = 0"
  unfolding overlapping_resolutions_def
  by (simp add: overlapped_def getApiUrlWithFallback_async_p1_def detect_and_cache_async_p1_def
      detectApiUrl_async_p1_def possibleUrls_def checkApiHealth_async_p1_def
      checkApiHealth_async_loop_p1.simps axios_get_async_def axios_get_def dispatch_def
      sleep_async_def getApiUrl_p1_def hosted_environment_def answers_once_network_def
      settle_def log_event_def data_ok_def retry_cycles_def retry_announcement_def
      await_call_eq await_progress_Suspended finish_Suspended initial_state_def Let_def
      del: await_progress.simps(2) finish.simps(2))

section \<open>Trailing slashes of the base URL\<close>

lemma strip_no_trailing_slash: "\<not> ends_with_slash (strip_trailing_slashes s)"
proof -
  let ?xs = "dropWhile (\<lambda>c. c = CHR ''/'') (rev s)"
  show ?thesis
  proof (cases "?xs = []")
    case True
    then show ?thesis by (simp add: ends_with_slash_def strip_trailing_slashes_def)
  next
    case False
    then have "hd ?xs \<noteq> CHR ''/''" using hd_dropWhile[of "\<lambda>c. c = CHR ''/''" "rev s"] by simp
    then show ?thesis using False
      by (simp add: ends_with_slash_def strip_trailing_slashes_def last_rev)
  qed
qed

lemma localUrl_no_trailing_slash: "\<not> ends_with_slash ''http://localhost:5000''"
  by (simp add: ends_with_slash_def)

lemma getApiUrl_p0_no_trailing_slash: "\<not> ends_with_slash (getApiUrl_p0 env)"
  by (simp add: getApiUrl_p0_def Let_def strip_no_trailing_slash localUrl_no_trailing_slash)

lemma health_url_p0:
  "\<exists>b. url (health_config_p0 u) = b @ ''/api/health'' \<and> \<not> ends_with_slash b"
proof (cases "truthy_str u")
  case True
  then have "url (health_config_p0 u) = strip_trailing_slashes (the u) @ ''/api/health''"
    by (simp add: health_config_p0_def)
  then show ?thesis using strip_no_trailing_slash by blast
next
  case False
  then have "url (health_config_p0 u) = [] @ ''/api/health'' \<and> \<not> ends_with_slash []"
    by (simp add: health_config_p0_def ends_with_slash_def)
  then show ?thesis by blast
qed

lemma baseURL_call_config [simp]: "baseURL (call_config inst t c) = default_baseURL inst"
  by (cases c) (simp_all add: base_config_def)

lemma request_p0_trace:
  "trace (fst (request_p0 net config0 st)) =
     trace st @ [Request (if truthy_str (cachedApiUrl st)
                          then config0\<lparr>baseURL := Some (strip_trailing_slashes (the (cachedApiUrl st)))\<rparr>
                          else config0)]"
  by (simp add: request_p0_def Let_def dispatch_def split: outcome.splits)

lemma api_p0_base_url:
  assumes "apiInstance st = None \<or> truthy_str (cachedApiUrl st)"
    and "Request rq \<in> set (drop (length (trace st)) (trace (fst (api_p0 env net c st))))"
  shows "\<exists>b. baseURL rq = Some b \<and> \<not> ends_with_slash b"
proof (cases "apiInstance st")
  case (Some inst)
  then have t: "truthy_str (cachedApiUrl st)" using assms(1) by simp
  have "fst (api_p0 env net c st) = fst (request_p0 net (call_config inst (Some 120000) c) st)"
    using Some by (simp add: api_p0_def getApiInstance_p0_def)
  then have "rq = (call_config inst (Some 120000) c)
                     \<lparr>baseURL := Some (strip_trailing_slashes (the (cachedApiUrl st)))\<rparr>"
    using assms(2) t by (simp add: request_p0_trace)
  then show ?thesis using strip_no_trailing_slash by simp
next
  case None
  obtain st1 apiUrl where g: "getApiUrlWithFallback_p0 env st = (st1, apiUrl)" by fastforce
  have t1: "trace st1 = trace st" and c1: "cachedApiUrl st1 = Some apiUrl"
    using g by (auto simp: getApiUrlWithFallback_p0_def Let_def truthy_str_iff split: if_splits)
  let ?b = "if apiUrl \<noteq> [] then strip_trailing_slashes apiUrl else apiUrl"
  have b: "\<not> ends_with_slash ?b"
    using strip_no_trailing_slash by (simp add: ends_with_slash_def)
  obtain st2 inst where a: "axios_create (Some ?b) st1 = (st2, inst)" by fastforce
  then have i: "default_baseURL inst = Some ?b" and t2: "trace st2 = trace st @ [Create (Some ?b)]"
    and c2: "cachedApiUrl st2 = Some apiUrl"
    using t1 c1 by (auto simp: axios_create_def)
  have "fst (api_p0 env net c st) =
          fst (request_p0 net (call_config inst (Some 120000) c) (st2\<lparr>apiInstance := Some inst\<rparr>))"
    using None g a by (simp add: api_p0_def getApiInstance_p0_def createApiInstance_p0_def Let_def)
  then have "rq = (if apiUrl \<noteq> []
                   then (call_config inst (Some 120000) c)\<lparr>baseURL := Some (strip_trailing_slashes apiUrl)\<rparr>
                   else call_config inst (Some 120000) c)"
    using assms(2) t2 c2 by (simp add: request_p0_trace)
  then show ?thesis using strip_no_trailing_slash[of apiUrl] i b by (auto split: if_splits)
qed

text \<open>
  Claim C3, as amended. In the normalising variant, for every configured URL the resolved
  base URL does not end in a slash; every health probe goes to a URL made of a base that
  does not end in a slash followed by \<open>/api/health\<close>; and every request of the client
  carries a base URL that does not end in a slash. So the slash that starts an appended
  \<open>/api/...\<close> path never follows another slash. The auto-detecting variant uses a
  configured URL (other than the local default) exactly as it is written.
\<close>

theorem base_url_normalised:
  "\<not> ends_with_slash (getApiUrl_p0 env) \<and>
   (\<not> (truthy_str (cachedApiUrl st) \<and> apiUrlChecked st) \<longrightarrow>
      \<not> ends_with_slash (snd (getApiUrlWithFallback_p0 env st))) \<and>
   (\<exists>new r b. checkApiHealth_p0 net u retries tr = (tr @ new, Inr r) \<and>
      (\<forall>e \<in> set new. is_request e \<longrightarrow> e = Request (health_config_p0 u)) \<and>
      url (health_config_p0 u) = b @ ''/api/health'' \<and> \<not> ends_with_slash b) \<and>
   (apiInstance st = None \<or> truthy_str (cachedApiUrl st) \<longrightarrow>
      (\<forall>rq. Request rq \<in> set (drop (length (trace st)) (trace (fst (api_p0 env net c st)))) \<longrightarrow>
            (\<exists>b. baseURL rq = Some b \<and> \<not> ends_with_slash b))) \<and>
   (truthy_str (VITE_API_URL env) \<and> VITE_API_URL env \<noteq> Some ''http://localhost:5000'' \<longrightarrow>
      getApiUrl_p1 env = VITE_API_URL env)"
proof -
  have 2: "\<not> (truthy_str (cachedApiUrl st) \<and> apiUrlChecked st) \<longrightarrow>
      \<not> ends_with_slash (snd (getApiUrlWithFallback_p0 env st))"
    using getApiUrl_p0_no_trailing_slash[of env]
    by (auto simp: getApiUrlWithFallback_p0_def Let_def)
  have 3: "\<exists>new r b. checkApiHealth_p0 net u retries tr = (tr @ new, Inr r) \<and>
      (\<forall>e \<in> set new. is_request e \<longrightarrow> e = Request (health_config_p0 u)) \<and>
      url (health_config_p0 u) = b @ ''/api/health'' \<and> \<not> ends_with_slash b"
    using checkApiHealth_p0_requests[of net u retries tr] health_url_p0[of u] by blast
  have 4: "apiInstance st = None \<or> truthy_str (cachedApiUrl st) \<longrightarrow>
      (\<forall>rq. Request rq \<in> set (drop (length (trace st)) (trace (fst (api_p0 env net c st)))) \<longrightarrow>
            (\<exists>b. baseURL rq = Some b \<and> \<not> ends_with_slash b))"
    using api_p0_base_url[of st _ env net c] by blast
  have 5: "truthy_str (VITE_API_URL env) \<and> VITE_API_URL env \<noteq> Some ''http://localhost:5000'' \<longrightarrow>
      getApiUrl_p1 env = VITE_API_URL env"
    by (simp add: getApiUrl_p1_def Let_def)
  from getApiUrl_p0_no_trailing_slash[of env] 2 3 4 5 show ?thesis by blast
qed

lemma getApiUrl_p0_prod: "getApiUrl_p0 prod_environment = ''https://api.example.com''"
  by (simp add: getApiUrl_p0_def prod_environment_def trim_def is_space_def
      strip_trailing_slashes_def Let_def)

theorem base_url_normalised_witness:
  "\<not> (truthy_str (cachedApiUrl initial_state) \<and> apiUrlChecked initial_state) \<and>
   apiInstance initial_state = None \<and>
   truthy_str (VITE_API_URL prod_environment) \<and>
   VITE_API_URL prod_environment \<noteq> Some ''http://localhost:5000'' \<and>
   getApiUrl_p0 prod_environment = ''https://api.example.com'' \<and>
   \<not> ends_with_slash ''https://api.example.com'' \<and>
   \<not> ends_with_slash (snd (getApiUrlWithFallback_p0 prod_environment initial_state)) \<and>
   getApiUrl_p1 prod_environment = Some ''https://api.example.com/''"
proof -
  have h: "\<not> (truthy_str (cachedApiUrl initial_state) \<and> apiUrlChecked initial_state)"
    "apiInstance initial_state = None"
    "truthy_str (VITE_API_URL prod_environment)"
    "VITE_API_URL prod_environment \<noteq> Some ''http://localhost:5000''"
    "VITE_API_URL prod_environment = Some ''https://api.example.com/''"
    by (simp_all add: initial_state_def prod_environment_def)
  from base_url_normalised[of prod_environment initial_state]
  show ?thesis using h getApiUrl_p0_prod by auto
qed

text \<open>
  Claim C3 as stated fails in the auto-detecting variant: with the configured URL
  \<open>https://api.example.com/\<close> and a healthy backend the resolved base URL still ends in
  a slash, and the probe was sent to a URL with a double slash before \<open>api\<close>.
\<close>

theorem trailing_slash_kept_p1_counterexample:
  "getApiUrlWithFallback_p1 prod_environment healthy_network initial_state =
     (\<lparr>cachedApiUrl = Some ''https://api.example.com/'', apiUrlChecked = True,
       apiInstance = None,
       trace = [Request (health_config_p1 (Some ''https://api.example.com/''))]\<rparr>,
      Inr ''https://api.example.com/'') \<and>
   ends_with_slash ''https://api.example.com/'' \<and>
   url (health_config_p1 (Some ''https://api.example.com/''))
     = ''https://api.example.com//api/health''"
proof -
  let ?u = "Some ''https://api.example.com/''"
  have g: "getApiUrl_p1 prod_environment = ?u"
    by (simp add: getApiUrl_p1_def prod_environment_def Let_def)
  have l: "checkApiHealth_p1 healthy_network ?u 1 [] =
      ([Request (health_config_p1 ?u)],
       Inr \<lparr>success = True, result_url = Some ?u, result_error = None\<rparr>)"
    unfolding checkApiHealth_p1_def
    by (subst checkApiHealth_loop_p1.simps)
      (simp add: axios_get_def health_config_p1_def dispatch_def healthy_network_def data_ok_def)
  show ?thesis
    using g l
    by (simp add: getApiUrlWithFallback_p1_def initial_state_def ends_with_slash_def
        health_config_p1_def Let_def)
qed

end
